theory Spec2Isabelle
  imports Main
begin

section \<open>Numbers and strings of the platform\<close>

text \<open>
  The credential index is a JavaScript number. It is read back from the store with
  \<open>parseInt\<close>, which yields \<open>NaN\<close> on a string without digits, so the index is an integer
  or \<open>NaN\<close>. (Integers are exact below \<open>2^53\<close>; timestamps and counters stay far below.)
\<close>

datatype jsnum = Num int | NaN

text \<open>\<open>Math.min(a, b)\<close>: \<open>NaN\<close> if either argument is \<open>NaN\<close>.\<close>

fun js_min :: "jsnum \<Rightarrow> jsnum \<Rightarrow> jsnum" where
  "js_min (Num a) (Num b) = Num (min a b)"
| "js_min _ _ = NaN"

text \<open>\<open>a >= b\<close> and \<open>a < b\<close>: every comparison with \<open>NaN\<close> is false.\<close>

fun js_ge :: "jsnum \<Rightarrow> jsnum \<Rightarrow> bool" where
  "js_ge (Num a) (Num b) = (a \<ge> b)"
| "js_ge _ _ = False"

fun js_less :: "jsnum \<Rightarrow> jsnum \<Rightarrow> bool" where
  "js_less (Num a) (Num b) = (a < b)"
| "js_less _ _ = False"

fun js_add :: "jsnum \<Rightarrow> int \<Rightarrow> jsnum" where
  "js_add (Num a) b = Num (a + b)"
| "js_add NaN _ = NaN"

definition is_space :: "char \<Rightarrow> bool" where
  "is_space c = (c \<in> set [CHR '' '', CHR 0x09, CHR 0x0A, CHR 0x0B, CHR 0x0C, CHR 0x0D])"

definition is_digit :: "char \<Rightarrow> bool" where
  "is_digit c = (c \<in> set ''0123456789'')"

definition digit_val :: "char \<Rightarrow> int" where
  "digit_val c = of_char c - 48"

definition digits_val :: "string \<Rightarrow> int" where
  "digits_val ds = foldl (\<lambda>a c. 10 * a + digit_val c) 0 ds"

text \<open>
  \<open>parseInt(s, 10)\<close>: leading white space is skipped, one sign is read, then the longest
  run of decimal digits; what follows is ignored; no digit at all gives \<open>NaN\<close>.
\<close>

definition parseInt :: "string \<Rightarrow> jsnum" where
  "parseInt s =
     (let t = dropWhile is_space s;
          neg = (case t of [] \<Rightarrow> False | c # _ \<Rightarrow> c = CHR ''-'');
          u = (case t of [] \<Rightarrow> [] | c # r \<Rightarrow> if c = CHR ''-'' \<or> c = CHR ''+'' then r else t);
          ds = takeWhile is_digit u
      in if ds = [] then NaN
         else Num (if neg then - digits_val ds else digits_val ds))"

definition digit_char :: "int \<Rightarrow> char" where
  "digit_char d = ''0123456789'' ! nat d"

function digits :: "int \<Rightarrow> string" where
  "digits n = (if n < 10 then [digit_char n] else digits (n div 10) @ [digit_char (n mod 10)])"
  by pat_completeness auto
termination
  by (relation "measure nat") auto

declare digits.simps [simp del]

text \<open>\<open>n.toString()\<close>, also what a template literal writes for a number.\<close>

fun toString :: "jsnum \<Rightarrow> string" where
  "toString (Num n) = (if n < 0 then CHR ''-'' # digits (- n) else digits n)"
| "toString NaN = ''NaN''"

declare toString.simps [simp del]

section \<open>The manager, the store and the outside world\<close>

text \<open>The fields of a credential and of a cached token that \<open>auth.ts\<close> reads.\<close>

record OAuth2Credentials =
  cred_access_token :: string
  cred_refresh_token :: string
  cred_expiry_date :: int
  cred_id_token :: string

record CachedTokenData =
  access_token :: string
  expiry_date :: int
  cached_at :: int

record TokenRefreshResponse =
  refresh_access_token :: string
  expires_in :: int

datatype reason = Normal | Exhausted

text \<open>
  Every \<open>throw\<close> and every rejected promise of \<open>auth.ts\<close> is a value of this type. A
  response of the upstream API that is not 2xx is \<open>ApiCallFailed status body\<close>.
\<close>

datatype error =
    EnvNotSet
  | NoAccountsFound
  | JsonSyntaxError
  | KvUnavailable
  | FetchFailed string
  | TokenRefreshFailed string
  | AuthenticationFailed error
  | ApiCallFailed int string
  | McpUnavailable string
  | AllAttemptsFailed int string

datatype request =
    ApiRequest string "string option" string
  | RefreshRequest string

datatype fetch_result = NetworkError string | Response int string

text \<open>The \<open>console\<close> lines of \<open>auth.ts\<close>, one constructor for each call site.\<close>

datatype logmsg =
    MarkedExhausted jsnum int
  | FoundCachedToken
  | NoCachedToken error
  | UsingCachedToken int
  | CachedTokenStale
  | OriginalTokenValid int
  | AllTokensExpired
  | AuthInitFailed error
  | CurrentIndex jsnum
  | Rotated jsnum reason
  | RefreshingToken
  | RefreshFailedLog string
  | TokenRefreshed
  | NewTokenExpiresIn int
  | TokenCached int
  | TokenNotCached
  | CacheWriteFailed
  | ClearedCache
  | ClearCacheError
  | Got401
  | McpServiceError int string
  | RetryingIn int
  | AttemptFailed int int error

text \<open>What the manager does to the outside, in the order it does it.\<close>

datatype event =
    Log logmsg
  | KvGet string
  | KvPut string string "int option"
  | KvDelete string
  | Fetch request
  | Sleep int

text \<open>
  The first four fields are the private fields of \<open>AuthManager\<close>; \<open>env_slots i\<close> is
  \<open>env.GCP_SERVICE_ACCOUNT_i\<close> and \<open>kv\<close> the contents of \<open>env.GEMINI_CLI_KV\<close>, each entry
  with the \<open>expirationTtl\<close> it was put with. The rest is the world around one request:
  \<open>clock\<close> is \<open>Date.now()\<close> in ms, moved only by the waits of the manager itself;
  \<open>kv_fault n\<close> says that the \<open>n\<close>-th call to the store rejects, \<open>net n\<close> is what the
  \<open>n\<close>-th \<open>fetch\<close> resolves to; \<open>trace\<close> records the effects. The store itself does
  not drop an entry when its TTL has passed: the TTL is only recorded.
\<close>

record state =
  accessToken :: "string option"
  credsIndex :: jsnum
  credsHash :: int
  credentials :: "string list"
  env_slots :: "nat \<Rightarrow> string option"
  kv :: "string \<rightharpoonup> string \<times> int option"
  kv_fault :: "nat \<Rightarrow> bool"
  kv_calls :: nat
  net :: "nat \<Rightarrow> fetch_result"
  fetches :: nat
  clock :: int
  trace :: "event list"

text \<open>
  What \<open>auth.ts\<close> imports from files that are not part of the sources at hand
  (\<open>config.ts\<close>, \<open>utils/hashing.ts\<close>) and the JSON functions of the platform, as
  parameters. \<open>parse_token\<close> is \<open>KV.get(key, "json")\<close> on the stored text: it throws,
  or yields a falsy value (\<open>None\<close>), or a token record. \<open>parse_json\<close> is \<open>response.json()\<close>
  on the body of a response of the upstream API: \<open>None\<close> when the body is not JSON, else
  the value it denotes.
\<close>

record platform =
  TOKEN_BUFFER_TIME :: int
  KV_TOKEN_KEY :: string
  KV_CREDS_INDEX :: string
  hashString :: "string \<Rightarrow> int"
  parse_credentials :: "string \<Rightarrow> OAuth2Credentials option"
  stringify_token :: "CachedTokenData \<Rightarrow> string"
  parse_token :: "string \<Rightarrow> error + CachedTokenData option"
  parse_refresh :: "string \<Rightarrow> TokenRefreshResponse option"
  parse_json :: "string \<Rightarrow> string option"

definition KV_EXHAUSTED_KEY_PREFIX :: string where
  "KV_EXHAUSTED_KEY_PREFIX = ''exhausted_until_''"

definition EXHAUSTION_SAFETY_BUFFER :: int where
  "EXHAUSTION_SAFETY_BUFFER = 120000"

definition console_log :: "logmsg \<Rightarrow> state \<Rightarrow> state" where
  "console_log m s = s\<lparr>trace := trace s @ [Log m]\<rparr>"

definition kv_get :: "string \<Rightarrow> state \<Rightarrow> (error + string option) \<times> state" where
  "kv_get k s =
     (let s' = s\<lparr>kv_calls := kv_calls s + 1, trace := trace s @ [KvGet k]\<rparr>
      in if kv_fault s (kv_calls s) then (Inl KvUnavailable, s')
         else (Inr (map_option fst (kv s k)), s'))"

definition kv_put :: "string \<Rightarrow> string \<Rightarrow> int option \<Rightarrow> state \<Rightarrow> (error + unit) \<times> state" where
  "kv_put k v ttl s =
     (let s' = s\<lparr>kv_calls := kv_calls s + 1, trace := trace s @ [KvPut k v ttl]\<rparr>
      in if kv_fault s (kv_calls s) then (Inl KvUnavailable, s')
         else (Inr (), s'\<lparr>kv := (kv s)(k \<mapsto> (v, ttl))\<rparr>))"

definition kv_delete :: "string \<Rightarrow> state \<Rightarrow> (error + unit) \<times> state" where
  "kv_delete k s =
     (let s' = s\<lparr>kv_calls := kv_calls s + 1, trace := trace s @ [KvDelete k]\<rparr>
      in if kv_fault s (kv_calls s) then (Inl KvUnavailable, s')
         else (Inr (), s'\<lparr>kv := (kv s)(k := None)\<rparr>))"

definition fetch :: "request \<Rightarrow> state \<Rightarrow> fetch_result \<times> state" where
  "fetch req s = (net s (fetches s), s\<lparr>fetches := fetches s + 1, trace := trace s @ [Fetch req]\<rparr>)"

definition sleep :: "int \<Rightarrow> state \<Rightarrow> state" where
  "sleep d s = s\<lparr>clock := clock s + d, trace := trace s @ [Sleep d]\<rparr>"

section \<open>Exhaustion tracking (auth.ts, lines 59 to 94)\<close>

definition exhausted_key :: "jsnum \<Rightarrow> string" where
  "exhausted_key index = KV_EXHAUSTED_KEY_PREFIX @ toString index"

text \<open>
  \<open>resetIso\<close> is represented by the instant it denotes, \<open>new Date(resetIso).getTime()\<close>.
\<close>

definition markCredentialExhausted :: "jsnum \<Rightarrow> int \<Rightarrow> state \<Rightarrow> (error + unit) \<times> state" where
  "markCredentialExhausted index resetIso s =
     (let resetTime = resetIso + EXHAUSTION_SAFETY_BUFFER;
          key = exhausted_key index
      in case kv_put key (toString (Num resetTime))
                (Some ((resetTime - clock s) div 1000 + 3600)) s of
           (Inl e, s') \<Rightarrow> (Inl e, s')
         | (Inr _, s') \<Rightarrow> (Inr (), console_log (MarkedExhausted index resetTime) s'))"

definition isCredentialExhausted :: "jsnum \<Rightarrow> state \<Rightarrow> (error + bool) \<times> state" where
  "isCredentialExhausted index s =
     (let key = exhausted_key index
      in case kv_get key s of
           (Inl e, s') \<Rightarrow> (Inl e, s')
         | (Inr None, s') \<Rightarrow> (Inr False, s')
         | (Inr (Some v), s') \<Rightarrow>
             if v = [] then (Inr False, s')
             else let until = parseInt v;
                      exhausted = js_less (Num (clock s')) until
                  in if \<not> exhausted
                     then (case kv_delete key s' of
                             (Inl e, s'') \<Rightarrow> (Inl e, s'')
                           | (Inr _, s'') \<Rightarrow> (Inr exhausted, s''))
                     else (Inr exhausted, s'))"

text \<open>
  The \<open>while\<close> loop of \<open>getNextViableCredentialIndex\<close>, entered with the values of
  \<open>attempts\<close> and \<open>next\<close>; \<open>total_n\<close> is the source's \<open>total\<close>,
  \<open>this.credentials.length\<close>.
\<close>

function viable_loop :: "int \<Rightarrow> int \<Rightarrow> jsnum \<Rightarrow> state \<Rightarrow> (error + jsnum) \<times> state" where
  "viable_loop total_n attempts next s =
     (if attempts < total_n then
        (let next' = (if js_ge next (Num (total_n - 1)) then Num 0 else js_add next 1)
         in case isCredentialExhausted next' s of
              (Inl e, s') \<Rightarrow> (Inl e, s')
            | (Inr b, s') \<Rightarrow>
                if \<not> b then (Inr next', s')
                else viable_loop total_n (attempts + 1) next' s')
      else (Inr next, s))"
  by pat_completeness auto
termination
  by (relation "measure (\<lambda>(total_n, attempts, next, s). nat (total_n - attempts))") auto

declare viable_loop.simps [simp del]

definition getNextViableCredentialIndex :: "jsnum \<Rightarrow> state \<Rightarrow> (error + jsnum) \<times> state" where
  "getNextViableCredentialIndex currentIndex s =
     viable_loop (int (length (credentials s))) 0 currentIndex s"

section \<open>Token acquisition (auth.ts, lines 99 to 152 and 196 to 269)\<close>

definition token_key :: "platform \<Rightarrow> state \<Rightarrow> string" where
  "token_key P s = KV_TOKEN_KEY P @ ''_'' @ toString (Num (credsHash s))"

text \<open>The whole body of \<open>cacheTokenInKV\<close> is inside \<open>try\<close>: it never throws.\<close>

definition cacheTokenInKV :: "platform \<Rightarrow> string \<Rightarrow> int \<Rightarrow> state \<Rightarrow> state" where
  "cacheTokenInKV P accessTok expiryDate s =
     (let tokenData = \<lparr>access_token = accessTok, expiry_date = expiryDate, cached_at = clock s\<rparr>;
          ttlSeconds = (expiryDate - clock s) div 1000 - 300
      in if ttlSeconds > 0 then
           (case kv_put (token_key P s) (stringify_token P tokenData) (Some ttlSeconds) s of
              (Inl e, s') \<Rightarrow> console_log CacheWriteFailed s'
            | (Inr _, s') \<Rightarrow> console_log (TokenCached ttlSeconds) s')
         else console_log TokenNotCached s)"

definition response_ok :: "int \<Rightarrow> bool" where
  "response_ok status = (200 \<le> status \<and> status \<le> 299)"

definition refreshAndCacheToken :: "platform \<Rightarrow> string \<Rightarrow> state \<Rightarrow> (error + unit) \<times> state" where
  "refreshAndCacheToken P refreshToken s =
     (case fetch (RefreshRequest refreshToken) (console_log RefreshingToken s) of
        (NetworkError m, s1) \<Rightarrow> (Inl (FetchFailed m), s1)
      | (Response status body, s1) \<Rightarrow>
          if \<not> response_ok status
          then (Inl (TokenRefreshFailed body), console_log (RefreshFailedLog body) s1)
          else (case parse_refresh P body of
                  None \<Rightarrow> (Inl JsonSyntaxError, s1)
                | Some refreshData \<Rightarrow>
                    (let s2 = s1\<lparr>accessToken := Some (refresh_access_token refreshData)\<rparr>;
                         expiryTime = clock s2 + expires_in refreshData * 1000;
                         s3 = console_log (NewTokenExpiresIn (expires_in refreshData))
                                (console_log TokenRefreshed s2)
                     in (Inr (), cacheTokenInKV P (refresh_access_token refreshData) expiryTime s3))))"

definition clearTokenCache :: "platform \<Rightarrow> state \<Rightarrow> state" where
  "clearTokenCache P s =
     (case kv_delete (token_key P s) s of
        (Inl e, s') \<Rightarrow> console_log ClearCacheError s'
      | (Inr _, s') \<Rightarrow> console_log ClearedCache s')"

text \<open>
  \<open>JSON.parse(this.credentials[this.credsIndex])\<close> and the read of \<open>id_token\<close>: an index
  that is \<open>NaN\<close>, negative or past the end reads \<open>undefined\<close>, which \<open>JSON.parse\<close> rejects.
\<close>

definition current_credentials :: "platform \<Rightarrow> state \<Rightarrow> OAuth2Credentials option" where
  "current_credentials P s =
     (case credsIndex s of
        NaN \<Rightarrow> None
      | Num i \<Rightarrow> if 0 \<le> i \<and> i < int (length (credentials s))
                 then parse_credentials P (credentials s ! nat i) else None)"

text \<open>Lines 109 to 119: the read of the token cache, whose failure is caught at once.\<close>

definition read_cached_token :: "platform \<Rightarrow> state \<Rightarrow> CachedTokenData option \<times> state" where
  "read_cached_token P s =
     (case kv_get (token_key P s) s of
        (Inl e, s') \<Rightarrow> (None, console_log (NoCachedToken e) s')
      | (Inr None, s') \<Rightarrow> (None, s')
      | (Inr (Some v), s') \<Rightarrow>
          (case parse_token P v of
             Inl e \<Rightarrow> (None, console_log (NoCachedToken e) s')
           | Inr None \<Rightarrow> (None, s')
           | Inr (Some cachedToken) \<Rightarrow> (Some cachedToken, console_log FoundCachedToken s')))"

text \<open>Lines 108 to 146: the body of the outer \<open>try\<close>.\<close>

definition initializeAuth_try :: "platform \<Rightarrow> OAuth2Credentials \<Rightarrow> state \<Rightarrow> (error + unit) \<times> state" where
  "initializeAuth_try P oauth2Creds s =
     (case read_cached_token P s of
        (cachedTokenData, s1) \<Rightarrow>
          (let fresh = (case cachedTokenData of
                          None \<Rightarrow> False
                        | Some c \<Rightarrow> expiry_date c - clock s1 > TOKEN_BUFFER_TIME P)
           in if fresh then
                (case cachedTokenData of
                   None \<Rightarrow> (Inr (), s1)
                 | Some c \<Rightarrow>
                     (Inr (), console_log (UsingCachedToken ((expiry_date c - clock s1) div 1000))
                                (s1\<lparr>accessToken := Some (access_token c)\<rparr>)))
              else
                (let s2 = (case cachedTokenData of
                             None \<Rightarrow> s1
                           | Some c \<Rightarrow> console_log CachedTokenStale s1);
                     timeUntilExpiry = cred_expiry_date oauth2Creds - clock s2
                 in if timeUntilExpiry > TOKEN_BUFFER_TIME P then
                      (Inr (), cacheTokenInKV P (cred_access_token oauth2Creds)
                                 (cred_expiry_date oauth2Creds)
                                 (console_log (OriginalTokenValid (timeUntilExpiry div 1000))
                                    (s2\<lparr>accessToken := Some (cred_access_token oauth2Creds)\<rparr>)))
                    else refreshAndCacheToken P (cred_refresh_token oauth2Creds)
                           (console_log AllTokensExpired s2))))"

definition initializeAuth :: "platform \<Rightarrow> state \<Rightarrow> (error + unit) \<times> state" where
  "initializeAuth P s =
     (if length (credentials s) = 0 then (Inl EnvNotSet, s)
      else case current_credentials P s of
             None \<Rightarrow> (Inl JsonSyntaxError, s)
           | Some oauth2Creds \<Rightarrow>
               (case initializeAuth_try P oauth2Creds
                       (s\<lparr>credsHash := hashString P (cred_id_token oauth2Creds)\<rparr>) of
                  (Inl e, s') \<Rightarrow> (Inl (AuthenticationFailed e), console_log (AuthInitFailed e) s')
                | (Inr u, s') \<Rightarrow> (Inr u, s')))"

section \<open>Rotation (auth.ts, lines 154 to 191)\<close>

definition load_slots :: "state \<Rightarrow> string list" where
  "load_slots s =
     filter (\<lambda>v. length v > 0)
       (map (\<lambda>i. case env_slots s i of None \<Rightarrow> [] | Some v \<Rightarrow> v) [0..<100])"

text \<open>
  \<open>resetIso\<close> is \<open>None\<close> when the argument is left out or is the empty string (both are
  falsy), else the instant it denotes.
\<close>

definition rotateCredentials :: "platform \<Rightarrow> reason \<Rightarrow> int option \<Rightarrow> state \<Rightarrow> (error + unit) \<times> state" where
  "rotateCredentials P reason resetIso s =
     (let s1 = (if length (credentials s) = 0 then s\<lparr>credentials := load_slots s\<rparr> else s)
      in if length (credentials s1) = 0 then (Inl NoAccountsFound, s1)
         else
           (let (savedIndexStr, s2) =
                  (case kv_get (KV_CREDS_INDEX P) s1 of
                     (Inl e, s') \<Rightarrow> (Some ''0'', s')
                   | (Inr v, s') \<Rightarrow> (v, s'));
                idx = js_min (parseInt (case savedIndexStr of None \<Rightarrow> ''0'' | Some v \<Rightarrow> v))
                        (Num (int (length (credentials s2)) - 1));
                s3 = console_log (CurrentIndex idx) (s2\<lparr>credsIndex := idx\<rparr>);
                found =
                  (case (reason, resetIso) of
                     (Exhausted, Some r) \<Rightarrow>
                       (case markCredentialExhausted (credsIndex s3) r s3 of
                          (Inl e, s') \<Rightarrow> (Inl e, s')
                        | (Inr _, s') \<Rightarrow> getNextViableCredentialIndex (credsIndex s') s')
                   | _ \<Rightarrow> getNextViableCredentialIndex (credsIndex s3) s3)
            in case found of
                 (Inl e, s4) \<Rightarrow> (Inl e, s4)
               | (Inr nextIndex, s4) \<Rightarrow>
                   (case kv_put (KV_CREDS_INDEX P) (toString nextIndex) None
                           (s4\<lparr>credsIndex := nextIndex\<rparr>) of
                      (Inl e, s5) \<Rightarrow> (Inl e, s5)
                    | (Inr _, s5) \<Rightarrow>
                        (Inr (), (console_log (Rotated nextIndex reason) s5)
                                   \<lparr>accessToken := None, credsHash := 0\<rparr>))))"

section \<open>Calls to the upstream API (auth.ts, lines 300 to 392)\<close>

text \<open>
  \<open>response.json()\<close>: the promise resolves to the value the body denotes and rejects with
  a \<open>SyntaxError\<close> when the body is not JSON.
\<close>

definition response_json :: "platform \<Rightarrow> string \<Rightarrow> error + string" where
  "response_json P responseText =
     (case parse_json P responseText of None \<Rightarrow> Inl JsonSyntaxError | Some v \<Rightarrow> Inr v)"

text \<open>
  \<open>body\<close> is the request body as sent, \<open>JSON.stringify(body)\<close>, and \<open>responseText\<close> the
  body of the response (the source's \<open>errorText\<close> when the status is not 2xx). Both
  functions end a 2xx response with \<open>return response.json()\<close>, so what that promise does
  is what the caller gets.
\<close>

function callEndpoint :: "platform \<Rightarrow> string \<Rightarrow> string \<Rightarrow> bool \<Rightarrow> state \<Rightarrow> (error + string) \<times> state" where
  "callEndpoint P method body isRetry s =
     (case initializeAuth P s of
        (Inl e, s1) \<Rightarrow> (Inl e, s1)
      | (Inr _, s1) \<Rightarrow>
          (case fetch (ApiRequest method (accessToken s1) body) s1 of
             (NetworkError m, s2) \<Rightarrow> (Inl (FetchFailed m), s2)
           | (Response status responseText, s2) \<Rightarrow>
               if \<not> response_ok status then
                 (if status = 401 \<and> \<not> isRetry then
                    (case initializeAuth P
                            (clearTokenCache P ((console_log Got401 s2)\<lparr>accessToken := None\<rparr>)) of
                       (Inl e, s3) \<Rightarrow> (Inl e, s3)
                     | (Inr _, s3) \<Rightarrow> callEndpoint P method body True s3)
                  else (Inl (ApiCallFailed status responseText), s2))
               else (response_json P responseText, s2)))"
  by pat_completeness auto
termination
  by (relation "measure (\<lambda>(P, method, body, isRetry, s). if isRetry then 0 else 1)") auto

declare callEndpoint.simps [simp del]

text \<open>
  One turn of the \<open>for\<close> loop of \<open>callEndpointWithRetry\<close> is the \<open>try\<close> block and the
  \<open>catch\<close> block. The \<open>try\<close> block ends in \<open>return\<close>, in \<open>continue\<close> (with the value
  \<open>lastError\<close> then has) or in a \<open>throw\<close>, its own or one of a callee. What it returns is
  the promise of \<open>response.json()\<close>, not awaited: if that promise rejects, the \<open>catch\<close>
  block does not see it and the call rejects.
\<close>

datatype attempt_outcome = Returned "error + string" | Continue "error option" | Thrown error

definition attempt_try ::
  "platform \<Rightarrow> string \<Rightarrow> string \<Rightarrow> int \<Rightarrow> int \<Rightarrow> int \<Rightarrow> error option \<Rightarrow> state
     \<Rightarrow> attempt_outcome \<times> state" where
  "attempt_try P method body maxRetries baseDelay attempt lastError s =
     (case initializeAuth P s of
        (Inl e, s1) \<Rightarrow> (Thrown e, s1)
      | (Inr _, s1) \<Rightarrow>
          (case fetch (ApiRequest method (accessToken s1) body) s1 of
             (NetworkError m, s2) \<Rightarrow> (Thrown (FetchFailed m), s2)
           | (Response status responseText, s2) \<Rightarrow>
               if \<not> response_ok status then
                 (if status = 401 \<and> attempt = 1 then
                    (case initializeAuth P
                            (clearTokenCache P ((console_log Got401 s2)\<lparr>accessToken := None\<rparr>)) of
                       (Inl e, s3) \<Rightarrow> (Thrown e, s3)
                     | (Inr _, s3) \<Rightarrow> (Continue lastError, s3))
                  else if status = 500 \<and> method = ''loadCodeAssist'' then
                    (let s3 = console_log (McpServiceError attempt responseText) s2
                     in if attempt < maxRetries then
                          (let delay = baseDelay * 2 ^ nat (attempt - 1)
                           in (Continue (Some (McpUnavailable responseText)),
                               sleep delay (console_log (RetryingIn delay) s3)))
                        else (Thrown (ApiCallFailed status responseText), s3))
                  else (Thrown (ApiCallFailed status responseText), s2))
               else (Returned (response_json P responseText), s2)))"

function retry_loop ::
  "platform \<Rightarrow> string \<Rightarrow> string \<Rightarrow> int \<Rightarrow> int \<Rightarrow> int \<Rightarrow> error option \<Rightarrow> state
     \<Rightarrow> (error + string) \<times> state" where
  "retry_loop P method body maxRetries baseDelay attempt lastError s =
     (if attempt \<le> maxRetries then
        (case attempt_try P method body maxRetries baseDelay attempt lastError s of
           (Returned v, s1) \<Rightarrow> (v, s1)
         | (Continue le, s1) \<Rightarrow> retry_loop P method body maxRetries baseDelay (attempt + 1) le s1
         | (Thrown e, s1) \<Rightarrow>
             (let s2 = (if attempt < maxRetries then
                          (let delay = baseDelay * 2 ^ nat (attempt - 1)
                           in sleep delay (console_log (AttemptFailed attempt delay e) s1))
                        else s1)
              in retry_loop P method body maxRetries baseDelay (attempt + 1) (Some e) s2))
      else (Inl (case lastError of
                   Some e \<Rightarrow> e
                 | None \<Rightarrow> AllAttemptsFailed maxRetries method), s))"
  by pat_completeness auto
termination
  by (relation "measure (\<lambda>(P, method, body, maxRetries, baseDelay, attempt, lastError, s).
                   nat (maxRetries + 1 - attempt))") auto

declare retry_loop.simps [simp del]

definition callEndpointWithRetry ::
  "platform \<Rightarrow> string \<Rightarrow> string \<Rightarrow> int \<Rightarrow> int \<Rightarrow> state \<Rightarrow> (error + string) \<times> state" where
  "callEndpointWithRetry P method body maxRetries baseDelay s =
     retry_loop P method body maxRetries baseDelay 1 None s"

section \<open>Notions used in the statements\<close>

text \<open>The keys of the store that were read, in order.\<close>

fun kv_reads :: "event list \<Rightarrow> string list" where
  "kv_reads [] = []"
| "kv_reads (KvGet k # es) = k # kv_reads es"
| "kv_reads (e # es) = kv_reads es"

text \<open>The \<open>m\<close> indices after \<open>c\<close> on a ring of \<open>n\<close>: \<open>(c + 1) mod n\<close>, \<open>(c + 2) mod n\<close>, ...\<close>

definition ring :: "int \<Rightarrow> int \<Rightarrow> nat \<Rightarrow> int list" where
  "ring n c m = map (\<lambda>k. (c + int k) mod n) [1..<Suc m]"

text \<open>
  What \<open>isCredentialExhausted\<close> decides from the store and the clock: there is a record, it
  is not empty, and the clock is before the time it holds.
\<close>

definition is_exhausted :: "state \<Rightarrow> jsnum \<Rightarrow> bool" where
  "is_exhausted s index =
     (case kv s (exhausted_key index) of
        None \<Rightarrow> False
      | Some (v, ttl) \<Rightarrow> v \<noteq> [] \<and> js_less (Num (clock s)) (parseInt v))"

text \<open>No call to the store rejects.\<close>

definition reliable :: "state \<Rightarrow> bool" where
  "reliable s = (\<forall>n. \<not> kv_fault s n)"

text \<open>The number of requests sent to the upstream API.\<close>

fun api_calls :: "event list \<Rightarrow> nat" where
  "api_calls [] = 0"
| "api_calls (Fetch (ApiRequest m t b) # es) = Suc (api_calls es)"
| "api_calls (e # es) = api_calls es"

text \<open>The keys of the store that were written, in order.\<close>

fun kv_writes :: "event list \<Rightarrow> string list" where
  "kv_writes [] = []"
| "kv_writes (KvPut k v t # es) = k # kv_writes es"
| "kv_writes (e # es) = kv_writes es"

text \<open>
  From \<open>s\<close> to \<open>s'\<close> the clock stands still and the store is the same but for
  exhaustion records that were not in force in \<open>s\<close> and are gone in \<open>s'\<close>.
\<close>

definition cleaned :: "state \<Rightarrow> state \<Rightarrow> bool" where
  "cleaned s s' =
     (clock s' = clock s \<and>
      (\<forall>k. kv s' k = kv s k \<or>
           (kv s' k = None \<and> (\<exists>i. k = exhausted_key i \<and> \<not> is_exhausted s i))))"

section \<open>Sample inputs\<close>

definition sample_credentials :: OAuth2Credentials where
  "sample_credentials = \<lparr>cred_access_token = ''at'', cred_refresh_token = ''rt'',
     cred_expiry_date = 5000000, cred_id_token = ''id''\<rparr>"

text \<open>
  The sample platform keeps a cached token as the text \<open>expiry cached_at token\<close> and reads
  it back from that text; its JSON parser knows the texts \<open>{}\<close> and \<open>[]\<close> only.
\<close>

definition after_space :: "string \<Rightarrow> string" where
  "after_space v = drop 1 (dropWhile (\<lambda>c. c \<noteq> CHR '' '') v)"

definition sample_stringify_token :: "CachedTokenData \<Rightarrow> string" where
  "sample_stringify_token c =
     toString (Num (expiry_date c)) @ [CHR '' ''] @ toString (Num (cached_at c)) @ [CHR '' '']
       @ access_token c"

definition sample_parse_token :: "string \<Rightarrow> error + CachedTokenData option" where
  "sample_parse_token v =
     (case (parseInt v, parseInt (after_space v)) of
        (Num e, Num a) \<Rightarrow>
          Inr (Some \<lparr>access_token = after_space (after_space v), expiry_date = e, cached_at = a\<rparr>)
      | _ \<Rightarrow> Inl JsonSyntaxError)"

definition sample_platform :: platform where
  "sample_platform =
     \<lparr>TOKEN_BUFFER_TIME = 300000, KV_TOKEN_KEY = ''token'', KV_CREDS_INDEX = ''creds_index'',
      hashString = (\<lambda>t. int (length t)),
      parse_credentials =
        (\<lambda>v. if v = ''{}'' then None else Some (sample_credentials\<lparr>cred_id_token := v\<rparr>)),
      stringify_token = sample_stringify_token,
      parse_token = sample_parse_token,
      parse_refresh = (\<lambda>v. Some \<lparr>refresh_access_token = v, expires_in = 3600\<rparr>),
      parse_json = (\<lambda>v. if v = ''{}'' \<or> v = ''[]'' then Some v else None)\<rparr>"

definition three_slots :: "nat \<Rightarrow> string option" where
  "three_slots i =
     (if i = 0 then Some ''a'' else if i = 1 then Some ''bb'' else if i = 2 then Some ''ccc''
      else None)"

text \<open>\<open>new AuthManager(env)\<close> at time 1000, with a store that answers.\<close>

definition new_AuthManager ::
  "(nat \<Rightarrow> string option) \<Rightarrow> (string \<rightharpoonup> string \<times> int option) \<Rightarrow> (nat \<Rightarrow> fetch_result) \<Rightarrow> state" where
  "new_AuthManager slots store responses =
     \<lparr>accessToken = None, credsIndex = Num 0, credsHash = 0, credentials = [],
      env_slots = slots, kv = store, kv_fault = (\<lambda>n. False), kv_calls = 0,
      net = responses, fetches = 0, clock = 1000, trace = []\<rparr>"

text \<open>The same manager once a rotation has loaded the three credentials.\<close>

definition pool3 :: "(string \<rightharpoonup> string \<times> int option) \<Rightarrow> (nat \<Rightarrow> fetch_result) \<Rightarrow> state" where
  "pool3 store responses =
     (new_AuthManager three_slots store responses)\<lparr>credentials := [''a'', ''bb'', ''ccc'']\<rparr>"

definition offline :: "nat \<Rightarrow> fetch_result" where
  "offline n = NetworkError ''offline''"

definition busy_then_ok :: "nat \<Rightarrow> fetch_result" where
  "busy_then_ok n = (if n = 0 then Response 503 ''busy'' else Response 200 ''{}'')"

definition cursor_0 :: "string \<rightharpoonup> string \<times> int option" where
  "cursor_0 = [''creds_index'' \<mapsto> (''0'', None)]"

definition cursor_minus_5 :: "string \<rightharpoonup> string \<times> int option" where
  "cursor_minus_5 = [''creds_index'' \<mapsto> (''-5'', None)]"

definition cursor_abc :: "string \<rightharpoonup> string \<times> int option" where
  "cursor_abc = [''creds_index'' \<mapsto> (''abc'', None)]"

definition exhausted_0_2 :: "string \<rightharpoonup> string \<times> int option" where
  "exhausted_0_2 =
     [''exhausted_until_0'' \<mapsto> (''5000'', None), ''exhausted_until_2'' \<mapsto> (''7000'', None)]"

definition exhausted_all :: "string \<rightharpoonup> string \<times> int option" where
  "exhausted_all = exhausted_0_2(''exhausted_until_1'' \<mapsto> (''6000'', None))"

definition expired_1 :: "string \<rightharpoonup> string \<times> int option" where
  "expired_1 = [''exhausted_until_1'' \<mapsto> (''500'', None)]"

definition cached_store :: "string \<rightharpoonup> string \<times> int option" where
  "cached_store = [''token_1'' \<mapsto> (''2000000 0 tok'', Some 1699)]"

definition unauthorized_then_ok :: "nat \<Rightarrow> fetch_result" where
  "unauthorized_then_ok n = (if n = 0 then Response 401 ''no'' else Response 200 ''{}'')"

text \<open>The identity provider answers every refresh with the token \<open>new\<close>.\<close>

definition refresh_ok :: "nat \<Rightarrow> fetch_result" where
  "refresh_ok n = Response 200 ''new''"

section \<open>The scan for the next viable credential\<close>

lemma kv_reads_append [simp]: "kv_reads (xs @ ys) = kv_reads xs @ kv_reads ys"
  by (induction xs rule: kv_reads.induct) auto

lemma ring_0 [simp]: "ring n c 0 = []"
  by (simp add: ring_def)

lemma ring_Suc: "ring n c (Suc m) = ((c + 1) mod n) # ring n ((c + 1) mod n) m"
proof -
  have "[1..<Suc (Suc m)] = 1 # map Suc [1..<Suc m]"
    by (simp add: upt_conv_Cons map_Suc_upt del: upt_Suc)
  then have "ring n c (Suc m) = ((c + 1) mod n) # map (\<lambda>k. (c + int (Suc k)) mod n) [1..<Suc m]"
    by (simp add: ring_def comp_def del: upt_Suc)
  moreover have "(c + int (Suc k)) mod n = ((c + 1) mod n + int k) mod n" for k
  proof -
    have "c + 1 + int k = c + int (Suc k)" by simp
    with mod_add_left_eq[of "c + 1" n "int k"] show ?thesis by simp
  qed
  ultimately show ?thesis by (simp add: ring_def del: upt_Suc)
qed

lemma ring_length [simp]: "length (ring n c m) = m"
  by (simp add: ring_def)

lemma ring_range: "0 < n \<Longrightarrow> i \<in> set (ring n c m) \<Longrightarrow> 0 \<le> i \<and> i < n"
  by (auto simp: ring_def)

lemma ring_distinct: 
  assumes "0 < n" "int m \<le> n" shows "distinct (ring n c m)"
proof -
  have "inj_on (\<lambda>k. (c + int k) mod n) {1..<Suc m}"
  proof (rule inj_onI)
    fix j k assume j: "j \<in> {1..<Suc m}" and k: "k \<in> {1..<Suc m}"
      and e: "(c + int j) mod n = (c + int k) mod n"
    from e have "n dvd (c + int j) - (c + int k)" by (simp add: mod_eq_dvd_iff)
    then have d: "n dvd int j - int k" by simp
    have "\<bar>int j - int k\<bar> < n" using j k assms by auto
    with d have "int j - int k = 0"
      using zdvd_not_zless[of "\<bar>int j - int k\<bar>" n] by (cases "int j - int k = 0") auto
    then show "j = k" by simp
  qed
  then show ?thesis by (simp add: ring_def distinct_map del: upt_Suc)
qed

lemma step_mod: "0 \<le> c \<Longrightarrow> c < n \<Longrightarrow> (if js_ge (Num c) (Num (n - 1)) then Num 0 else js_add (Num c) 1) = Num ((c + 1) mod n)"
proof (cases "n - 1 \<le> c")
  case True
  assume "0 \<le> c" "c < n"
  with True have "c + 1 = n" by simp
  then have "(c + 1) mod n = 0" by simp
  with True show ?thesis by simp
next
  case False
  assume "0 \<le> c" "c < n"
  with False have "(c + 1) mod n = c + 1" by simp
  with False show ?thesis by simp
qed

lemma viable_loop_done: "\<not> a < n \<Longrightarrow> viable_loop n a nxt s = (Inr nxt, s)"
  by (simp add: viable_loop.simps)

lemma viable_loop_step:
  assumes "a < n" "0 \<le> c" "c < n"
  shows "viable_loop n a (Num c) s =
     (case isCredentialExhausted (Num ((c + 1) mod n)) s of
        (Inl e, s') \<Rightarrow> (Inl e, s')
      | (Inr b, s') \<Rightarrow>
          if b then viable_loop n (a + 1) (Num ((c + 1) mod n)) s'
          else (Inr (Num ((c + 1) mod n)), s'))"
proof -
  have "viable_loop n a (Num c) s =
     (let next' = (if js_ge (Num c) (Num (n - 1)) then Num 0 else js_add (Num c) 1)
      in case isCredentialExhausted next' s of
           (Inl e, s') \<Rightarrow> (Inl e, s')
         | (Inr b, s') \<Rightarrow>
             if \<not> b then (Inr next', s') else viable_loop n (a + 1) next' s')"
    using assms(1) by (subst viable_loop.simps) simp
  then show ?thesis
    unfolding step_mod[OF assms(2,3)] by (simp add: Let_def split: prod.splits sum.splits)
qed

lemma isCredentialExhausted_reads:
  "kv_reads (trace (snd (isCredentialExhausted i s))) = kv_reads (trace s) @ [exhausted_key i]"
  by (simp add: isCredentialExhausted_def kv_get_def kv_delete_def Let_def split: option.splits)

lemma viable_loop_reads:
  "0 \<le> c \<Longrightarrow> c < n \<Longrightarrow> a \<le> n \<Longrightarrow> nxt = Num c \<Longrightarrow>
   \<exists>m. int m \<le> n - a \<and>
       kv_reads (trace (snd (viable_loop n a nxt s)))
         = kv_reads (trace s) @ map (\<lambda>i. exhausted_key (Num i)) (ring n c m)"
proof (induction n a nxt s arbitrary: c rule: viable_loop.induct)
  case (1 n a nxt s)
  show ?case
  proof (cases "a < n")
    case False
    then show ?thesis using 1(2-) by (intro exI[of _ 0]) (simp add: viable_loop_done)
  next
    case True
    define c' where "c' = (c + 1) mod n"
    have nx: "(if js_ge nxt (Num (n - 1)) then Num 0 else js_add nxt 1) = Num c'"
      unfolding c'_def 1(5) by (rule step_mod[OF 1(2) 1(3)])
    have c'r: "0 \<le> c'" "c' < n" using 1(2-) by (simp_all add: c'_def)
    obtain r s' where r: "isCredentialExhausted (Num c') s = (r, s')"
      by (cases "isCredentialExhausted (Num c') s")
    have rd: "kv_reads (trace s') = kv_reads (trace s) @ [exhausted_key (Num c')]"
      using isCredentialExhausted_reads[of "Num c'" s] r by simp
    have unf: "viable_loop n a nxt s =
        (case r of Inl e \<Rightarrow> (Inl e, s')
         | Inr b \<Rightarrow> if b then viable_loop n (a + 1) (Num c') s' else (Inr (Num c'), s'))"
      unfolding 1(5) viable_loop_step[OF True 1(2) 1(3)] c'_def[symmetric] using r by simp
    show ?thesis
    proof (cases "r = Inr True")
      case False
      then have "snd (viable_loop n a nxt s) = s'"
        unfolding unf by (auto split: sum.splits)
      then show ?thesis using rd True by (intro exI[of _ 1]) (simp add: ring_Suc c'_def)
    next
      case T: True
      then have eq: "viable_loop n a nxt s = viable_loop n (a + 1) (Num c') s'"
        unfolding unf by simp
      have "a + 1 \<le> n" using True by simp
      from "1.IH"[OF True nx[symmetric] r[symmetric] _ _ c'r this, of True] T
      obtain m where m: "int m \<le> n - (a + 1)"
        "kv_reads (trace (snd (viable_loop n (a + 1) (Num c') s')))
         = kv_reads (trace s') @ map (\<lambda>i. exhausted_key (Num i)) (ring n c' m)"
        by auto
      show ?thesis using m rd eq by (intro exI[of _ "Suc m"]) (simp add: ring_Suc c'_def)
    qed
  qed
qed


lemma is_exhausted_frame: "kv s' = kv s \<Longrightarrow> clock s' = clock s \<Longrightarrow> is_exhausted s' i = is_exhausted s i"
  by (simp add: is_exhausted_def split: option.splits)

lemma isCredentialExhausted_True:
  "\<not> kv_fault s (kv_calls s) \<Longrightarrow> is_exhausted s i \<Longrightarrow>
   isCredentialExhausted i s =
     (Inr True, s\<lparr>kv_calls := kv_calls s + 1, trace := trace s @ [KvGet (exhausted_key i)]\<rparr>)"
  by (auto simp: isCredentialExhausted_def is_exhausted_def kv_get_def Let_def split: option.splits)

lemma isCredentialExhausted_False:
  "reliable s \<Longrightarrow> \<not> is_exhausted s i \<Longrightarrow> fst (isCredentialExhausted i s) = Inr False"
  by (auto simp: isCredentialExhausted_def is_exhausted_def kv_get_def kv_delete_def reliable_def Let_def
           split: option.splits)

lemma all_exhausted_loop:
  "reliable s \<Longrightarrow> 0 \<le> c \<Longrightarrow> c < n \<Longrightarrow> a \<le> n \<Longrightarrow> nxt = Num c \<Longrightarrow>
   (\<forall>i \<in> set (ring n c (nat (n - a))). is_exhausted s (Num i)) \<Longrightarrow>
   viable_loop n a nxt s =
     (Inr (Num ((c + (n - a)) mod n)),
      s\<lparr>kv_calls := kv_calls s + nat (n - a),
        trace := trace s @ map (\<lambda>i. KvGet (exhausted_key (Num i))) (ring n c (nat (n - a)))\<rparr>)"
proof (induction n a nxt s arbitrary: c rule: viable_loop.induct)
  case (1 n a nxt s)
  show ?case
  proof (cases "a < n")
    case False
    with 1(5) have "a = n" by simp
    then show ?thesis using 1(3,4,6) by (simp add: viable_loop_done)
  next
    case True
    define c' where "c' = (c + 1) mod n"
    define s' where "s' = s\<lparr>kv_calls := kv_calls s + 1, trace := trace s @ [KvGet (exhausted_key (Num c'))]\<rparr>"
    have nx: "(if js_ge nxt (Num (n - 1)) then Num 0 else js_add nxt 1) = Num c'"
      unfolding c'_def 1(6) by (rule step_mod[OF 1(3) 1(4)])
    have c'r: "0 \<le> c'" "c' < n" using 1(3,4) by (simp_all add: c'_def)
    have m: "nat (n - a) = Suc (nat (n - (a + 1)))" using True by simp
    have rg: "ring n c (nat (n - a)) = c' # ring n c' (nat (n - (a + 1)))"
      unfolding m ring_Suc c'_def ..
    have ex: "is_exhausted s (Num c')" using 1(7) rg by simp
    have r: "isCredentialExhausted (Num c') s = (Inr True, s')"
      unfolding s'_def using isCredentialExhausted_True[OF _ ex] 1(2) by (simp add: reliable_def)
    have eq: "viable_loop n a nxt s = viable_loop n (a + 1) (Num c') s'"
      unfolding 1(6) viable_loop_step[OF True 1(3) 1(4)] c'_def[symmetric] using r by simp
    have rel: "reliable s'" using 1(2) by (simp add: reliable_def s'_def)
    have fr: "is_exhausted s' i = is_exhausted s i" for i
      by (rule is_exhausted_frame) (simp_all add: s'_def)
    have ex': "\<forall>i \<in> set (ring n c' (nat (n - (a + 1)))). is_exhausted s' (Num i)"
      using 1(7) rg by (simp add: fr)
    have le: "a + 1 \<le> n" using True by simp
    have md: "(c' + (n - (a + 1))) mod n = (c + (n - a)) mod n"
    proof -
      have "c + 1 + (n - (a + 1)) = c + (n - a)" by simp
      with mod_add_left_eq[of "c + 1" n "n - (a + 1)"] show ?thesis by (simp add: c'_def)
    qed
    show ?thesis
      unfolding eq "1.IH"[OF True nx[symmetric] r[symmetric] _ _ rel c'r le refl ex', of True, simplified] rg
      by (simp add: md s'_def m)
  qed
qed

lemma first_viable_loop:
  "reliable s \<Longrightarrow> 0 \<le> c \<Longrightarrow> c < n \<Longrightarrow> int k < n - a \<Longrightarrow>
   (\<forall>i \<in> set (ring n c k). is_exhausted s (Num i)) \<Longrightarrow>
   \<not> is_exhausted s (Num ((c + int k + 1) mod n)) \<Longrightarrow>
   fst (viable_loop n a (Num c) s) = Inr (Num ((c + int k + 1) mod n))"
proof (induction k arbitrary: c a s)
  case 0
  then have an: "a < n" by simp
  obtain r s' where r: "isCredentialExhausted (Num ((c + 1) mod n)) s = (r, s')"
    by (cases "isCredentialExhausted (Num ((c + 1) mod n)) s")
  with isCredentialExhausted_False[OF 0(1), of "Num ((c + 1) mod n)"] 0(6)
  have "r = Inr False" by simp
  then show ?case unfolding viable_loop_step[OF an 0(2,3)] using r by simp
next
  case (Suc k)
  then have an: "a < n" by simp
  define c' where "c' = (c + 1) mod n"
  define s' where "s' = s\<lparr>kv_calls := kv_calls s + 1, trace := trace s @ [KvGet (exhausted_key (Num c'))]\<rparr>"
  have c'r: "0 \<le> c'" "c' < n" using Suc(3,4) by (simp_all add: c'_def)
  have rg: "ring n c (Suc k) = c' # ring n c' k" unfolding ring_Suc c'_def ..
  have ex: "is_exhausted s (Num c')" using Suc(6) rg by simp
  have r: "isCredentialExhausted (Num c') s = (Inr True, s')"
    unfolding s'_def using isCredentialExhausted_True[OF _ ex] Suc(2) by (simp add: reliable_def)
  have eq: "viable_loop n a (Num c) s = viable_loop n (a + 1) (Num c') s'"
    unfolding viable_loop_step[OF an Suc(3,4)] c'_def[symmetric] using r by simp
  have rel: "reliable s'" using Suc(2) by (simp add: reliable_def s'_def)
  have md: "(c' + int k + 1) mod n = (c + int (Suc k) + 1) mod n"
  proof -
    have "c + 1 + (int k + 1) = c + int (Suc k) + 1" by simp
    with mod_add_left_eq[of "c + 1" n "int k + 1"] show ?thesis by (simp add: c'_def add.assoc)
  qed
  have fr: "is_exhausted s' i = is_exhausted s i" for i
    by (rule is_exhausted_frame) (simp_all add: s'_def)
  have ex': "\<forall>i \<in> set (ring n c' k). is_exhausted s' (Num i)"
    using Suc(6) rg by (simp add: fr)
  have nex: "\<not> is_exhausted s' (Num ((c' + int k + 1) mod n))"
    using Suc(7) unfolding md by (simp add: fr)
  have lt: "int k < n - (a + 1)" using Suc(5) by simp
  show ?case unfolding eq using Suc.IH[OF rel c'r lt ex' nex] md by simp
qed

lemma ring_snoc: "ring n c (Suc m) = ring n c m @ [(c + int m + 1) mod n]"
  by (simp add: ring_def ac_simps)

lemma only_viable_loop:
  assumes "reliable s" "0 \<le> c" "c < n" "0 \<le> j" "j < n" "\<not> is_exhausted s (Num j)"
     and others: "\<forall>i. 0 \<le> i \<and> i < n \<and> i \<noteq> j \<longrightarrow> is_exhausted s (Num i)"
  shows "fst (viable_loop n 0 (Num c) s) = Inr (Num j)"
proof -
  define k where "k = nat ((j - c - 1) mod n)"
  have n0: "0 < n" using assms by simp
  have kn: "int k < n" using n0 by (simp add: k_def)
  have "(c + int k + 1) mod n = (c + 1 + (j - c - 1) mod n) mod n"
    using n0 by (simp add: k_def add.assoc add.commute add.left_commute)
  also have "\<dots> = (c + 1 + (j - c - 1)) mod n" by (rule mod_add_right_eq)
  also have "\<dots> = j" using assms by simp
  finally have tgt: "(c + int k + 1) mod n = j" .
  have "distinct (ring n c (Suc k))" using ring_distinct[OF n0, of "Suc k" c] kn by simp
  then have "j \<notin> set (ring n c k)" unfolding ring_snoc tgt by simp
  then have "\<forall>i \<in> set (ring n c k). is_exhausted s (Num i)"
    using others ring_range[OF n0, of _ c k] by blast
  from first_viable_loop[OF assms(1-3), of k 0, OF _ this] kn assms(6) tgt
  show ?thesis by simp
qed

section \<open>Evaluation of keys and numbers\<close>

lemma exhausted_key_0: "exhausted_key (Num 0) = ''exhausted_until_0''"
  by code_simp
lemma exhausted_key_1: "exhausted_key (Num 1) = ''exhausted_until_1''"
  by code_simp
lemma parseInt_0: "parseInt ''0'' = Num 0"
  by code_simp
lemma toString_1: "toString (Num 1) = ''1''"
  by code_simp

section \<open>Token acquisition leaves its traces\<close>

lemma cache_trace: "\<exists>es. trace (cacheTokenInKV P a e s) = trace s @ es"
  by (simp add: cacheTokenInKV_def kv_put_def console_log_def Let_def)

lemma cache_accessToken: "accessToken (cacheTokenInKV P a e s) = accessToken s"
  by (simp add: cacheTokenInKV_def kv_put_def console_log_def Let_def)

text \<open>The access token a refresh leaves, read off the reply of the identity provider.\<close>

lemma refresh_accessToken:
  "accessToken (snd (refreshAndCacheToken P r s)) =
     (case net s (fetches s) of
        NetworkError m \<Rightarrow> accessToken s
      | Response st body \<Rightarrow>
          if response_ok st
          then (case parse_refresh P body of
                  None \<Rightarrow> accessToken s
                | Some rd \<Rightarrow> Some (refresh_access_token rd))
          else accessToken s)"
  by (simp add: refreshAndCacheToken_def fetch_def console_log_def Let_def cache_accessToken
        split: fetch_result.splits option.splits)

lemma refresh_trace:
  "\<exists>es. trace (snd (refreshAndCacheToken P r s)) = trace s @ es"
proof -
  have c: "\<exists>es. trace (cacheTokenInKV P a e t) = xs @ es" if "trace t = xs @ ys" for a e t xs ys
    using cache_trace[of P a e t] that by auto
  show ?thesis
    by (auto simp: refreshAndCacheToken_def fetch_def console_log_def Let_def
          split: fetch_result.splits option.splits intro!: c)
qed

lemma api_calls_append [simp]: "api_calls (xs @ ys) = api_calls xs + api_calls ys"
  by (induction xs rule: api_calls.induct) auto

lemma cache_api_calls [simp]:
  "api_calls (trace (cacheTokenInKV P a e s)) = api_calls (trace s)"
  by (simp add: cacheTokenInKV_def kv_put_def console_log_def Let_def)

lemma refresh_api_calls [simp]:
  "api_calls (trace (snd (refreshAndCacheToken P r s))) = api_calls (trace s)"
  by (simp add: refreshAndCacheToken_def fetch_def console_log_def Let_def
        split: fetch_result.splits option.splits)

lemma read_api_calls [simp]:
  "api_calls (trace (snd (read_cached_token P s))) = api_calls (trace s)"
  by (simp add: read_cached_token_def kv_get_def console_log_def Let_def
        split: option.splits sum.splits)

lemma try_api_calls [simp]:
  "api_calls (trace (snd (initializeAuth_try P oc s))) = api_calls (trace s)"
proof -
  obtain c s1 where r: "read_cached_token P s = (c, s1)" by (cases "read_cached_token P s")
  then have s1: "api_calls (trace s1) = api_calls (trace s)"
    using read_api_calls[of P s] by simp
  show ?thesis
    unfolding initializeAuth_try_def r
    by (cases c) (simp_all add: Let_def console_log_def s1)
qed

lemma initializeAuth_api_calls [simp]:
  "api_calls (trace (snd (initializeAuth P s))) = api_calls (trace s)"
proof (cases "length (credentials s) = 0 \<or> current_credentials P s = None")
  case True
  then show ?thesis by (auto simp: initializeAuth_def)
next
  case False
  then obtain oc where oc: "current_credentials P s = Some oc" by auto
  let ?s0 = "s\<lparr>credsHash := hashString P (cred_id_token oc)\<rparr>"
  obtain r s' where r: "initializeAuth_try P oc ?s0 = (r, s')"
    by (cases "initializeAuth_try P oc ?s0")
  then have "api_calls (trace s') = api_calls (trace s)"
    using try_api_calls[of P oc ?s0] by simp
  then show ?thesis using False oc r
    by (cases r) (simp_all add: initializeAuth_def console_log_def)
qed

lemma clear_api_calls [simp]:
  "api_calls (trace (clearTokenCache P s)) = api_calls (trace s)"
  by (simp add: clearTokenCache_def kv_delete_def console_log_def Let_def)

lemma callEndpoint_retry_calls:
  "api_calls (trace (snd (callEndpoint P method body True s))) \<le> api_calls (trace s) + 1"
proof -
  obtain r s1 where a: "initializeAuth P s = (r, s1)" by (cases "initializeAuth P s")
  then have s1: "api_calls (trace s1) = api_calls (trace s)"
    using initializeAuth_api_calls[of P s] by simp
  show ?thesis
    by (subst callEndpoint.simps)
       (simp add: a s1 fetch_def split: sum.splits fetch_result.splits)
qed

lemma callEndpoint_calls:
  "api_calls (trace (snd (callEndpoint P method body isRetry s)))
     \<le> api_calls (trace s) + (if isRetry then 1 else 2)"
proof (cases isRetry)
  case True
  then show ?thesis using callEndpoint_retry_calls[of P _ _ s] by simp
next
  case False
  obtain r s1 where a: "initializeAuth P s = (r, s1)" by (cases "initializeAuth P s")
  then have s1: "api_calls (trace s1) = api_calls (trace s)"
    using initializeAuth_api_calls[of P s] by simp
  let ?s2 = "snd (fetch (ApiRequest method (accessToken s1) body) s1)"
  let ?s3 = "clearTokenCache P ((console_log Got401 ?s2)\<lparr>accessToken := None\<rparr>)"
  have s2: "api_calls (trace ?s2) = api_calls (trace s) + 1" by (simp add: fetch_def s1)
  have s3: "api_calls (trace ?s3) = api_calls (trace s) + 1" by (simp add: console_log_def s2)
  obtain r' s4 where b: "initializeAuth P ?s3 = (r', s4)" by (cases "initializeAuth P ?s3")
  then have s4: "api_calls (trace s4) = api_calls (trace s) + 1"
    using initializeAuth_api_calls[of P ?s3] s3 by simp
  have re: "api_calls (trace (snd (callEndpoint P method body True s4))) \<le> api_calls (trace s) + 2"
    using callEndpoint_retry_calls[of P _ _ s4] s4 by simp
  show ?thesis
    using False b re s2 s4
    by (subst callEndpoint.simps)
       (auto simp: a s1 fetch_def split: sum.splits fetch_result.splits)
qed

section \<open>What a rotation does to the store\<close>

lemma kv_writes_append [simp]: "kv_writes (xs @ ys) = kv_writes xs @ kv_writes ys"
  by (induction xs rule: kv_writes.induct) auto

lemma cleaned_refl: "kv s' = kv s \<Longrightarrow> clock s' = clock s \<Longrightarrow> cleaned s s'"
  by (simp add: cleaned_def)

lemma cleaned_trans:
  assumes "cleaned s s'" "cleaned s' s''"
  shows "cleaned s s''"
proof -
  have c: "clock s' = clock s" "clock s'' = clock s'" using assms by (simp_all add: cleaned_def)
  have "kv s'' k = kv s k \<or> (kv s'' k = None \<and> (\<exists>i. k = exhausted_key i \<and> \<not> is_exhausted s i))" for k
  proof (cases "kv s'' k = kv s' k")
    case True
    then show ?thesis using assms(1) by (auto simp: cleaned_def)
  next
    case False
    then obtain i where i: "kv s'' k = None" "k = exhausted_key i" "\<not> is_exhausted s' i"
      using assms(2) by (auto simp: cleaned_def)
    show ?thesis
    proof (cases "kv s' k = kv s k")
      case True
      then have "is_exhausted s i = is_exhausted s' i"
        using i(2) c by (simp add: is_exhausted_def split: option.splits)
      then show ?thesis using i by auto
    next
      case False
      then show ?thesis using assms(1) i(1) by (auto simp: cleaned_def)
    qed
  qed
  then show ?thesis using c by (simp add: cleaned_def)
qed

lemma isCredentialExhausted_cleaned: "cleaned s (snd (isCredentialExhausted i s))"
  by (auto simp: cleaned_def isCredentialExhausted_def is_exhausted_def kv_get_def kv_delete_def
        Let_def split: option.splits)

lemma isCredentialExhausted_writes:
  "kv_writes (trace (snd (isCredentialExhausted i s))) = kv_writes (trace s)"
  by (simp add: isCredentialExhausted_def kv_get_def kv_delete_def Let_def split: option.splits)

lemma viable_loop_cleaned:
  "cleaned s (snd (viable_loop n a nxt s)) \<and>
   kv_writes (trace (snd (viable_loop n a nxt s))) = kv_writes (trace s)"
proof (induction n a nxt s rule: viable_loop.induct)
  case (1 n a nxt s)
  show ?case
  proof (cases "a < n")
    case False
    then show ?thesis by (simp add: viable_loop_done cleaned_refl)
  next
    case True
    define nx where "nx = (if js_ge nxt (Num (n - 1)) then Num 0 else js_add nxt 1)"
    obtain r s' where r: "isCredentialExhausted nx s = (r, s')"
      by (cases "isCredentialExhausted nx s")
    have st: "cleaned s s'" "kv_writes (trace s') = kv_writes (trace s)"
      using isCredentialExhausted_cleaned[of s nx] isCredentialExhausted_writes[of nx s] r
      by simp_all
    have unf: "viable_loop n a nxt s =
        (case r of Inl e \<Rightarrow> (Inl e, s')
         | Inr b \<Rightarrow> if \<not> b then (Inr nx, s') else viable_loop n (a + 1) nx s')"
      using True r by (subst viable_loop.simps) (simp add: nx_def[symmetric] Let_def)
    show ?thesis
    proof (cases "r = Inr True")
      case False
      then have "snd (viable_loop n a nxt s) = s'" unfolding unf by (auto split: sum.splits)
      then show ?thesis using st by simp
    next
      case T: True
      then have eq: "viable_loop n a nxt s = viable_loop n (a + 1) nx s'" unfolding unf by simp
      from "1.IH"[OF True nx_def r[symmetric] _ _, of True] T
      have "cleaned s' (snd (viable_loop n (a + 1) nx s'))"
        "kv_writes (trace (snd (viable_loop n (a + 1) nx s'))) = kv_writes (trace s')"
        by auto
      then show ?thesis unfolding eq using st cleaned_trans by auto
    qed
  qed
qed



lemma getNextViable_cleaned:
  "getNextViableCredentialIndex idx t = (r, u) \<Longrightarrow>
   cleaned t u \<and> kv_writes (trace u) = kv_writes (trace t)"
  using viable_loop_cleaned[of t "int (length (credentials t))" 0 idx]
  by (simp add: getNextViableCredentialIndex_def)

lemma cleaned_from:
  "cleaned t u \<Longrightarrow> kv t = kv s \<Longrightarrow> clock t = clock s \<Longrightarrow> cleaned s u"
  using cleaned_trans[OF cleaned_refl, of t s u] by simp



lemma rotateCredentials_None:
  "rotateCredentials P reason None s =
     (let s1 = (if length (credentials s) = 0 then s\<lparr>credentials := load_slots s\<rparr> else s)
      in if length (credentials s1) = 0 then (Inl NoAccountsFound, s1)
         else
           (let (savedIndexStr, s2) =
                  (case kv_get (KV_CREDS_INDEX P) s1 of
                     (Inl e, s') \<Rightarrow> (Some ''0'', s')
                   | (Inr v, s') \<Rightarrow> (v, s'));
                idx = js_min (parseInt (case savedIndexStr of None \<Rightarrow> ''0'' | Some v \<Rightarrow> v))
                        (Num (int (length (credentials s2)) - 1));
                s3 = console_log (CurrentIndex idx) (s2\<lparr>credsIndex := idx\<rparr>);
                found = getNextViableCredentialIndex (credsIndex s3) s3
            in case found of
                 (Inl e, s4) \<Rightarrow> (Inl e, s4)
               | (Inr nextIndex, s4) \<Rightarrow>
                   (case kv_put (KV_CREDS_INDEX P) (toString nextIndex) None
                           (s4\<lparr>credsIndex := nextIndex\<rparr>) of
                      (Inl e, s5) \<Rightarrow> (Inl e, s5)
                    | (Inr _, s5) \<Rightarrow>
                        (Inr (), (console_log (Rotated nextIndex reason) s5)
                                   \<lparr>accessToken := None, credsHash := 0\<rparr>))))"
  unfolding rotateCredentials_def
  by (cases reason; hypsubst; simp only: prod.case reason.case option.case)

section \<open>Facts about the sample inputs\<close>

lemma exhausted_key_2: "exhausted_key (Num 2) = ''exhausted_until_2''"
  by code_simp

lemma toString_181000: "toString (Num 181000) = ''181000''"
  by (simp add: toString.simps digits.simps digit_char_def)

lemma reliable_pool3: "reliable (pool3 store responses)"
  by (simp add: reliable_def pool3_def new_AuthManager_def)

lemma length_pool3: "length (credentials (pool3 store responses)) = 3"
  by (simp add: pool3_def new_AuthManager_def)

lemma clock_pool3: "clock (pool3 store responses) = 1000"
  by (simp add: pool3_def new_AuthManager_def)

lemma sample_cursor_key: "KV_CREDS_INDEX sample_platform = ''creds_index''"
  by (simp add: sample_platform_def)

lemma less_3_cases: "(i::nat) < 3 \<Longrightarrow> i = 0 \<or> i = 1 \<or> i = 2"
  by arith

lemma cursor_0_current:
  "kv (pool3 cursor_0 offline) (KV_CREDS_INDEX sample_platform) = Some (''0'', None)"
  by (simp add: pool3_def new_AuthManager_def sample_platform_def cursor_0_def)

lemma cursor_0_no_records:
  "\<forall>i<3. kv (pool3 cursor_0 offline) (exhausted_key (Num (int i))) = None"
proof (intro allI impI)
  fix i :: nat assume "i < 3"
  then have "i = 0 \<or> i = 1 \<or> i = 2" by arith
  then show "kv (pool3 cursor_0 offline) (exhausted_key (Num (int i))) = None"
    by (auto simp: exhausted_key_0 exhausted_key_1 exhausted_key_2 pool3_def
          new_AuthManager_def cursor_0_def)
qed

lemma is_exhausted_all:
  "is_exhausted (pool3 exhausted_all offline) (Num 0)"
  "is_exhausted (pool3 exhausted_all offline) (Num 1)"
  "is_exhausted (pool3 exhausted_all offline) (Num 2)"
  by (simp_all add: is_exhausted_def exhausted_key_0 exhausted_key_1 exhausted_key_2 pool3_def
        new_AuthManager_def exhausted_all_def exhausted_0_2_def
        parseInt_def is_space_def is_digit_def digits_val_def digit_val_def)

lemma is_exhausted_0_2:
  "is_exhausted (pool3 exhausted_0_2 offline) (Num 0)"
  "\<not> is_exhausted (pool3 exhausted_0_2 offline) (Num 1)"
  "is_exhausted (pool3 exhausted_0_2 offline) (Num 2)"
  by (simp_all add: is_exhausted_def exhausted_key_0 exhausted_key_1 exhausted_key_2 pool3_def
        new_AuthManager_def exhausted_0_2_def
        parseInt_def is_space_def is_digit_def digits_val_def digit_val_def)

lemma sample_token_key:
  "token_key sample_platform
     (s\<lparr>credsHash := hashString sample_platform
                       (cred_id_token (sample_credentials\<lparr>cred_id_token := ''a''\<rparr>))\<rparr>) = ''token_1''"
  by (simp add: token_key_def sample_platform_def toString.simps digits.simps digit_char_def)

lemma sample_cached_entry:
  "parse_token sample_platform ''2000000 0 tok''
     = Inr (Some \<lparr>access_token = ''tok'', expiry_date = 2000000, cached_at = 0\<rparr>)"
  by (simp add: sample_platform_def sample_parse_token_def after_space_def parseInt_def
        is_space_def is_digit_def digits_val_def digit_val_def)

lemma sample_buffer: "TOKEN_BUFFER_TIME sample_platform = 300000"
  by (simp add: sample_platform_def)

lemma sample_parse_refresh:
  "parse_refresh sample_platform v = Some \<lparr>refresh_access_token = v, expires_in = 3600\<rparr>"
  by (simp add: sample_platform_def)

section \<open>The claims\<close>

text \<open>
  C1. The claim: in \<open>callEndpointWithRetry\<close>, a response that is not 2xx, and is neither a
  401 on the first attempt nor a 500 on \<open>loadCodeAssist\<close>, fails the call at once, with no
  further attempt and no wait. The source throws that error inside the \<open>try\<close> block, so
  its own \<open>catch\<close> takes it: with a 503 on the first attempt of three and a 200 on the
  second, the call waits 1000 ms, sends the request again and returns the second body.
\<close>

theorem callEndpointWithRetry_retries_any_status:
  "fst (callEndpointWithRetry sample_platform ''generateContent'' ''{}'' 3 1000
          (pool3 Map.empty busy_then_ok)) = Inr ''{}'' \<and>
   trace (snd (callEndpointWithRetry sample_platform ''generateContent'' ''{}'' 3 1000
          (pool3 Map.empty busy_then_ok))) =
     [KvGet ''token_1'', Log (OriginalTokenValid 4999),
      KvPut ''token_1'' ''5000000 1000 at'' (Some 4699), Log (TokenCached 4699),
      Fetch (ApiRequest ''generateContent'' (Some ''at'') ''{}''),
      Log (AttemptFailed 1 1000 (ApiCallFailed 503 ''busy'')), Sleep 1000,
      KvGet ''token_1'', Log FoundCachedToken, Log (UsingCachedToken 4998),
      Fetch (ApiRequest ''generateContent'' (Some ''at'') ''{}'')]"
  by code_simp

text \<open>
  C2. The claim: an authentication call on a manager whose pool is not loaded loads the pool
  first. \<open>initializeAuth\<close> does not: on a new manager it throws at its first line and
  leaves the manager as it was, although the slots of the environment hold three
  credentials (which \<open>load_slots\<close>, the loading step of \<open>rotateCredentials\<close>, finds).
\<close>

theorem initializeAuth_new_manager_fails:
  "initializeAuth P (new_AuthManager three_slots store responses)
     = (Inl EnvNotSet, new_AuthManager three_slots store responses) \<and>
   load_slots (new_AuthManager three_slots store responses) = [''a'', ''bb'', ''ccc'']"
proof -
  have "load_slots (new_AuthManager three_slots store responses) = [''a'', ''bb'', ''ccc'']"
    unfolding load_slots_def new_AuthManager_def three_slots_def by code_simp
  then show ?thesis by (simp add: initializeAuth_def new_AuthManager_def)
qed

text \<open>
  C3. Three credentials, the persisted cursor is 0, the store answers and holds no
  exhaustion record. Then \<open>rotateCredentials("exhausted", reset)\<close> with \<open>reset\<close> 60 s after
  now succeeds; it puts \<open>exhausted_until_0\<close> with the value now + 180000 ms and the TTL
  180000 / 1000 + 3600 s, reads \<open>exhausted_until_1\<close>, selects index 1 and puts the cursor
  1; nothing else changes but the token and the hash, which are reset.
\<close>

theorem rotate_exhausted_scenario:
  assumes rel: "reliable s"
    and len: "length (credentials s) = 3"
    and cur: "kv s (KV_CREDS_INDEX P) = Some (''0'', t0)"
    and noex: "\<forall>i<3. kv s (exhausted_key (Num (int i))) = None"
  shows "rotateCredentials P Exhausted (Some (clock s + 60000)) s =
           (Inr (),
            s\<lparr>accessToken := None, credsIndex := Num 1, credsHash := 0,
              kv := (kv s)(''exhausted_until_0'' \<mapsto>
                             (toString (Num (clock s + 180000)), Some (180000 div 1000 + 3600)),
                           KV_CREDS_INDEX P \<mapsto> (''1'', None)),
              kv_calls := kv_calls s + 4,
              trace := trace s @
                [KvGet (KV_CREDS_INDEX P), Log (CurrentIndex (Num 0)),
                 KvPut ''exhausted_until_0'' (toString (Num (clock s + 180000)))
                   (Some (180000 div 1000 + 3600)),
                 Log (MarkedExhausted (Num 0) (clock s + 180000)),
                 KvGet ''exhausted_until_1'',
                 KvPut (KV_CREDS_INDEX P) ''1'' None,
                 Log (Rotated (Num 1) Exhausted)]\<rparr>)"
proof -
  have nf: "\<not> kv_fault s n" for n using rel by (simp add: reliable_def)
  have k1: "kv s ''exhausted_until_1'' = None"
    using noex by (auto dest: spec[of _ 1] simp: exhausted_key_1)
  have ne: "credentials s \<noteq> []" using len by auto
  have st: "viable_loop 3 0 (Num 0) t =
     (case isCredentialExhausted (Num 1) t of
        (Inl e, s') \<Rightarrow> (Inl e, s')
      | (Inr b, s') \<Rightarrow> if b then viable_loop 3 1 (Num 1) s' else (Inr (Num 1), s'))" for t
    using viable_loop_step[of 0 3 0 t] by (simp split: prod.splits sum.splits)
  show ?thesis
    unfolding rotateCredentials_def
    by (simp add: len ne cur k1 nf st kv_get_def kv_put_def console_log_def Let_def parseInt_0 toString_1
          markCredentialExhausted_def EXHAUSTION_SAFETY_BUFFER_def
          getNextViableCredentialIndex_def isCredentialExhausted_def
          exhausted_key_0 exhausted_key_1)
       (rule state.equality; simp add: add.commute)
qed

theorem rotate_exhausted_scenario_witness:
  "reliable (pool3 cursor_0 offline) \<and>
   length (credentials (pool3 cursor_0 offline)) = 3 \<and>
   kv (pool3 cursor_0 offline) (KV_CREDS_INDEX sample_platform) = Some (''0'', None) \<and>
   kv (pool3 cursor_0 offline) (exhausted_key (Num 0)) = None \<and>
   kv (pool3 cursor_0 offline) (exhausted_key (Num 1)) = None \<and>
   kv (pool3 cursor_0 offline) (exhausted_key (Num 2)) = None \<and>
   fst (rotateCredentials sample_platform Exhausted (Some (1000 + 60000))
          (pool3 cursor_0 offline)) = Inr () \<and>
   credsIndex (snd (rotateCredentials sample_platform Exhausted (Some (1000 + 60000))
          (pool3 cursor_0 offline))) = Num 1 \<and>
   kv (snd (rotateCredentials sample_platform Exhausted (Some (1000 + 60000))
          (pool3 cursor_0 offline))) ''exhausted_until_0''
     = Some (''181000'', Some 3780) \<and>
   kv (snd (rotateCredentials sample_platform Exhausted (Some (1000 + 60000))
          (pool3 cursor_0 offline))) ''creds_index''
     = Some (''1'', None)"
  using rotate_exhausted_scenario[OF reliable_pool3 length_pool3 cursor_0_current cursor_0_no_records]
    cursor_0_current cursor_0_no_records
  by (simp add: reliable_pool3 length_pool3 clock_pool3 sample_cursor_key toString_181000
        All_less_Suc numeral_3_eq_3)

text \<open>
  C4. From any start index of a pool that is not empty, \<open>getNextViableCredentialIndex\<close>
  reads the store at most once for each credential: the keys it reads are those of
  distinct indices of the pool, at most as many as the pool has, in ring order after the
  start index. It is a total function: the loop ends (its termination is proved above).
\<close>

theorem nextViable_visits_once:
  assumes "c < length (credentials s)"
  shows "\<exists>idxs. length idxs \<le> length (credentials s) \<and> distinct idxs \<and>
           (\<forall>i \<in> set idxs. 0 \<le> i \<and> i < int (length (credentials s))) \<and>
           idxs = ring (int (length (credentials s))) (int c) (length idxs) \<and>
           kv_reads (trace (snd (getNextViableCredentialIndex (Num (int c)) s)))
             = kv_reads (trace s) @ map (\<lambda>i. exhausted_key (Num i)) idxs"
proof -
  let ?n = "int (length (credentials s))"
  have n0: "0 < ?n" and c: "0 \<le> int c" "int c < ?n" using assms by auto
  from viable_loop_reads[OF c, of 0 "Num (int c)" s]
  obtain m where m: "int m \<le> ?n"
    and rd: "kv_reads (trace (snd (viable_loop ?n 0 (Num (int c)) s)))
               = kv_reads (trace s) @ map (\<lambda>i. exhausted_key (Num i)) (ring ?n (int c) m)"
    by auto
  have "distinct (ring ?n (int c) m)" by (rule ring_distinct[OF n0 m])
  moreover have "\<forall>i \<in> set (ring ?n (int c) m). 0 \<le> i \<and> i < ?n"
    using ring_range[OF n0] by blast
  ultimately show ?thesis
    using m rd by (intro exI[of _ "ring ?n (int c) m"]) (simp add: getNextViableCredentialIndex_def)
qed

theorem nextViable_visits_once_witness:
  "2 < length (credentials (pool3 exhausted_all offline)) \<and>
   (\<exists>idxs. length idxs \<le> length (credentials (pool3 exhausted_all offline)) \<and> distinct idxs \<and>
           (\<forall>i \<in> set idxs. 0 \<le> i \<and> i < int (length (credentials (pool3 exhausted_all offline)))) \<and>
           idxs = ring (int (length (credentials (pool3 exhausted_all offline)))) (int 2) (length idxs) \<and>
           kv_reads (trace (snd (getNextViableCredentialIndex (Num (int 2)) (pool3 exhausted_all offline))))
             = kv_reads (trace (pool3 exhausted_all offline)) @ map (\<lambda>i. exhausted_key (Num i)) idxs)"
proof -
  have h: "2 < length (credentials (pool3 exhausted_all offline))" by (simp add: length_pool3)
  from nextViable_visits_once[OF h] h show ?thesis by blast
qed

text \<open>
  C5. The store answers and exactly one index \<open>j\<close> of the pool is not exhausted. Then
  \<open>getNextViableCredentialIndex\<close> returns \<open>j\<close> from every start index \<open>c\<close> of the pool,
  \<open>c = j\<close> included.
\<close>

theorem nextViable_only_viable:
  assumes "reliable s"
    and "c < length (credentials s)"
    and "j < length (credentials s)"
    and "\<not> is_exhausted s (Num (int j))"
    and "\<forall>i < length (credentials s). i \<noteq> j \<longrightarrow> is_exhausted s (Num (int i))"
  shows "fst (getNextViableCredentialIndex (Num (int c)) s) = Inr (Num (int j))"
proof -
  let ?n = "int (length (credentials s))"
  have "\<forall>i. 0 \<le> i \<and> i < ?n \<and> i \<noteq> int j \<longrightarrow> is_exhausted s (Num i)"
  proof (intro allI impI)
    fix i :: int assume i: "0 \<le> i \<and> i < ?n \<and> i \<noteq> int j"
    then have "nat i < length (credentials s)" "nat i \<noteq> j" by auto
    with assms(5) have "is_exhausted s (Num (int (nat i)))" by blast
    with i show "is_exhausted s (Num i)" by simp
  qed
  from only_viable_loop[OF assms(1) _ _ _ _ assms(4) this] assms(2,3)
  show ?thesis by (simp add: getNextViableCredentialIndex_def)
qed

theorem nextViable_only_viable_witness:
  "reliable (pool3 exhausted_0_2 offline) \<and>
   1 < length (credentials (pool3 exhausted_0_2 offline)) \<and>
   \<not> is_exhausted (pool3 exhausted_0_2 offline) (Num (int 1)) \<and>
   is_exhausted (pool3 exhausted_0_2 offline) (Num 0) \<and>
   is_exhausted (pool3 exhausted_0_2 offline) (Num 2) \<and>
   fst (getNextViableCredentialIndex (Num (int 1)) (pool3 exhausted_0_2 offline)) = Inr (Num (int 1))"
proof -
  let ?S = "pool3 exhausted_0_2 offline"
  have h2: "1 < length (credentials ?S)" by (simp add: length_pool3)
  have h4: "\<not> is_exhausted ?S (Num (int 1))" using is_exhausted_0_2 by simp
  have h5: "\<forall>i < length (credentials ?S). i \<noteq> 1 \<longrightarrow> is_exhausted ?S (Num (int i))"
    using is_exhausted_0_2 by (auto simp: length_pool3 dest!: less_3_cases)
  from nextViable_only_viable[OF reliable_pool3 h2 h2 h4 h5] reliable_pool3 h2 h4
    is_exhausted_0_2
  show ?thesis by simp
qed

text \<open>
  C6. The store answers and every index of the pool is exhausted. Then
  \<open>getNextViableCredentialIndex\<close> returns without an error the start index \<open>c\<close>, which is
  in the pool and is the last index the scan visits; the scan reads one record for each
  index and changes neither the credential list nor the store.
\<close>

theorem nextViable_all_exhausted:
  assumes "reliable s"
    and "c < length (credentials s)"
    and "\<forall>i < length (credentials s). is_exhausted s (Num (int i))"
  shows "getNextViableCredentialIndex (Num (int c)) s =
           (Inr (Num (int c)),
            s\<lparr>kv_calls := kv_calls s + length (credentials s),
              trace := trace s @ map (\<lambda>i. KvGet (exhausted_key (Num i)))
                         (ring (int (length (credentials s))) (int c) (length (credentials s)))\<rparr>)
         \<and> last (ring (int (length (credentials s))) (int c) (length (credentials s))) = int c
         \<and> credentials (snd (getNextViableCredentialIndex (Num (int c)) s)) = credentials s
         \<and> kv (snd (getNextViableCredentialIndex (Num (int c)) s)) = kv s"
proof -
  let ?n = "int (length (credentials s))"
  have n0: "0 < ?n" and c: "0 \<le> int c" "int c < ?n" using assms by auto
  have ex: "\<forall>i \<in> set (ring ?n (int c) (nat (?n - 0))). is_exhausted s (Num i)"
  proof
    fix i assume "i \<in> set (ring ?n (int c) (nat (?n - 0)))"
    then have i: "0 \<le> i \<and> i < ?n" using ring_range[OF n0] by blast
    then have "nat i < length (credentials s)" by auto
    with assms(3) have "is_exhausted s (Num (int (nat i)))" by blast
    with i show "is_exhausted s (Num i)" by simp
  qed
  have eq: "getNextViableCredentialIndex (Num (int c)) s =
           (Inr (Num (int c)),
            s\<lparr>kv_calls := kv_calls s + length (credentials s),
              trace := trace s @ map (\<lambda>i. KvGet (exhausted_key (Num i)))
                         (ring ?n (int c) (length (credentials s)))\<rparr>)"
    using all_exhausted_loop[OF assms(1) c _ refl ex] c
    by (simp add: getNextViableCredentialIndex_def)
  obtain m where m: "length (credentials s) = Suc m" using assms(2) by (cases "length (credentials s)") auto
  have "last (ring ?n (int c) (length (credentials s))) = (int c + int m + 1) mod ?n"
    unfolding m ring_snoc by simp
  also have "int c + int m + 1 = int c + ?n" using m by simp
  also have "(int c + ?n) mod ?n = int c mod ?n" by (simp only: mod_add_self2)
  also have "\<dots> = int c" using c by (simp only: mod_pos_pos_trivial)
  finally show ?thesis using eq by simp
qed

theorem nextViable_all_exhausted_witness:
  "reliable (pool3 exhausted_all offline) \<and>
   1 < length (credentials (pool3 exhausted_all offline)) \<and>
   is_exhausted (pool3 exhausted_all offline) (Num 0) \<and>
   is_exhausted (pool3 exhausted_all offline) (Num 1) \<and>
   is_exhausted (pool3 exhausted_all offline) (Num 2) \<and>
   fst (getNextViableCredentialIndex (Num (int 1)) (pool3 exhausted_all offline)) = Inr (Num 1) \<and>
   credentials (snd (getNextViableCredentialIndex (Num (int 1)) (pool3 exhausted_all offline)))
     = credentials (pool3 exhausted_all offline) \<and>
   kv (snd (getNextViableCredentialIndex (Num (int 1)) (pool3 exhausted_all offline)))
     = kv (pool3 exhausted_all offline)"
proof -
  let ?S = "pool3 exhausted_all offline"
  have h2: "1 < length (credentials ?S)" by (simp add: length_pool3)
  have h3: "\<forall>i < length (credentials ?S). is_exhausted ?S (Num (int i))"
    using is_exhausted_all by (auto simp: length_pool3 dest!: less_3_cases)
  from nextViable_all_exhausted[OF reliable_pool3 h2 h3] reliable_pool3 h2 is_exhausted_all
  show ?thesis by simp
qed

text \<open>
  C7. The pool is loaded, the current credential \<open>oc\<close> parses and the store returns a
  cached token entry \<open>c\<close> for it. Adopting the entry means that \<open>initializeAuth\<close> returns
  at once, with the access token of the entry and the console line "Using cached token" as
  its last event. The call adopts the entry if and only if \<open>expiry_date c\<close> minus the clock
  exceeds \<open>TOKEN_BUFFER_TIME\<close>. A stale entry is treated as absent: the call goes on with
  the token of the credential when that one is still valid, which it stores, and with a
  refresh otherwise; the access token it leaves is that of the credential, or the one in
  the reply to the refresh, or the one held before when the refresh fails. In particular,
  under a buffer of 300 s the entry is not adopted once the clock has reached
  \<open>expiry_date c\<close> minus 200 s.
\<close>

theorem initializeAuth_adopts_iff_fresh:
  fixes P :: platform and s :: state and oc :: OAuth2Credentials and c :: CachedTokenData
  defines "s1 \<equiv> s\<lparr>credsHash := hashString P (cred_id_token oc), kv_calls := kv_calls s + 1,
             trace := trace s @
               [KvGet (token_key P (s\<lparr>credsHash := hashString P (cred_id_token oc)\<rparr>)),
                Log FoundCachedToken]\<rparr>"
  defines "adopted \<equiv> console_log (UsingCachedToken ((expiry_date c - clock s) div 1000))
                        (s1\<lparr>accessToken := Some (access_token c)\<rparr>)"
  defines "s2 \<equiv> console_log CachedTokenStale s1"
  defines "stale_token \<equiv>
     (if cred_expiry_date oc - clock s > TOKEN_BUFFER_TIME P then Some (cred_access_token oc)
      else case net s (fetches s) of
             NetworkError m \<Rightarrow> accessToken s
           | Response st body \<Rightarrow>
               if response_ok st
               then (case parse_refresh P body of
                       None \<Rightarrow> accessToken s
                     | Some rd \<Rightarrow> Some (refresh_access_token rd))
               else accessToken s)"
  assumes pool: "credentials s \<noteq> []"
    and cred: "current_credentials P s = Some oc"
    and up: "\<not> kv_fault s (kv_calls s)"
    and entry: "kv s (token_key P (s\<lparr>credsHash := hashString P (cred_id_token oc)\<rparr>)) = Some (v, ttl)"
    and parsed: "parse_token P v = Inr (Some c)"
  shows "(initializeAuth P s = (Inr (), adopted)
            \<longleftrightarrow> expiry_date c - clock s > TOKEN_BUFFER_TIME P) \<and>
         (\<not> expiry_date c - clock s > TOKEN_BUFFER_TIME P \<longrightarrow>
            accessToken (snd (initializeAuth P s)) = stale_token \<and>
            initializeAuth P s =
              (if cred_expiry_date oc - clock s > TOKEN_BUFFER_TIME P
               then (Inr (), cacheTokenInKV P (cred_access_token oc) (cred_expiry_date oc)
                       (console_log (OriginalTokenValid ((cred_expiry_date oc - clock s) div 1000))
                          (s2\<lparr>accessToken := Some (cred_access_token oc)\<rparr>)))
               else (case refreshAndCacheToken P (cred_refresh_token oc)
                            (console_log AllTokensExpired s2) of
                       (Inl e, s') \<Rightarrow> (Inl (AuthenticationFailed e), console_log (AuthInitFailed e) s')
                     | (Inr u, s') \<Rightarrow> (Inr u, s')))) \<and>
         (TOKEN_BUFFER_TIME P = 300000 \<and> expiry_date c - 200000 \<le> clock s \<longrightarrow>
            initializeAuth P s \<noteq> (Inr (), adopted) \<and>
            accessToken (snd (initializeAuth P s)) = stale_token)"
proof -
  let ?h = "hashString P (cred_id_token oc)"
  have rd: "read_cached_token P (s\<lparr>credsHash := ?h\<rparr>) = (Some c, s1)"
    using up entry parsed
    by (simp add: read_cached_token_def kv_get_def console_log_def Let_def s1_def)
  have k1: "clock s1 = clock s" "accessToken s1 = accessToken s" "net s1 = net s"
    "fetches s1 = fetches s" "trace s1 = trace s @
               [KvGet (token_key P (s\<lparr>credsHash := ?h\<rparr>)), Log FoundCachedToken]"
    by (simp_all add: s1_def)
  have fresh: "initializeAuth P s = (Inr (), adopted)"
    if "expiry_date c - clock s > TOKEN_BUFFER_TIME P"
    using pool cred rd that k1(1)
    by (simp add: initializeAuth_def initializeAuth_try_def adopted_def)
  have path: "initializeAuth P s =
              (if cred_expiry_date oc - clock s > TOKEN_BUFFER_TIME P
               then (Inr (), cacheTokenInKV P (cred_access_token oc) (cred_expiry_date oc)
                       (console_log (OriginalTokenValid ((cred_expiry_date oc - clock s) div 1000))
                          (s2\<lparr>accessToken := Some (cred_access_token oc)\<rparr>)))
               else (case refreshAndCacheToken P (cred_refresh_token oc)
                            (console_log AllTokensExpired s2) of
                       (Inl e, s') \<Rightarrow> (Inl (AuthenticationFailed e), console_log (AuthInitFailed e) s')
                     | (Inr u, s') \<Rightarrow> (Inr u, s')))"
    if st: "\<not> expiry_date c - clock s > TOKEN_BUFFER_TIME P"
    using pool cred rd st k1(1)
    by (simp add: initializeAuth_def initializeAuth_try_def s2_def console_log_def Let_def
          split: prod.splits sum.splits)
  have tok: "accessToken (snd (initializeAuth P s)) = stale_token"
    if st: "\<not> expiry_date c - clock s > TOKEN_BUFFER_TIME P"
  proof (cases "cred_expiry_date oc - clock s > TOKEN_BUFFER_TIME P")
    case True
    then show ?thesis unfolding path[OF st]
      by (simp add: stale_token_def console_log_def cache_accessToken)
  next
    case False
    let ?s3 = "console_log AllTokensExpired s2"
    have n: "net ?s3 = net s" "fetches ?s3 = fetches s" "accessToken ?s3 = accessToken s"
      by (simp_all add: s2_def console_log_def k1)
    obtain r x where rx: "refreshAndCacheToken P (cred_refresh_token oc) ?s3 = (r, x)"
      by (cases "refreshAndCacheToken P (cred_refresh_token oc) ?s3")
    have "accessToken x = stale_token"
      using refresh_accessToken[of P "cred_refresh_token oc" ?s3] rx False
      by (simp add: stale_token_def n split: fetch_result.splits option.splits)
    then show ?thesis unfolding path[OF st] using False rx
      by (cases r) (simp_all add: console_log_def)
  qed
  have ext: "\<exists>es. trace (snd (initializeAuth P s)) = trace s2 @ es"
    if st: "\<not> expiry_date c - clock s > TOKEN_BUFFER_TIME P"
  proof (cases "cred_expiry_date oc - clock s > TOKEN_BUFFER_TIME P")
    case True
    let ?t = "console_log (OriginalTokenValid ((cred_expiry_date oc - clock s) div 1000))
                          (s2\<lparr>accessToken := Some (cred_access_token oc)\<rparr>)"
    obtain es where "trace (cacheTokenInKV P (cred_access_token oc) (cred_expiry_date oc) ?t)
        = trace ?t @ es" using cache_trace by blast
    then show ?thesis unfolding path[OF st] using True by (simp add: console_log_def)
  next
    case False
    let ?s3 = "console_log AllTokensExpired s2"
    obtain r x where rx: "refreshAndCacheToken P (cred_refresh_token oc) ?s3 = (r, x)"
      by (cases "refreshAndCacheToken P (cred_refresh_token oc) ?s3")
    obtain es where "trace x = trace ?s3 @ es"
      using refresh_trace[of P "cred_refresh_token oc" ?s3] rx by auto
    then show ?thesis unfolding path[OF st] using False rx
      by (cases r) (simp_all add: console_log_def)
  qed
  have differ: "initializeAuth P s \<noteq> (Inr (), adopted)"
    if st: "\<not> expiry_date c - clock s > TOKEN_BUFFER_TIME P"
  proof
    assume e: "initializeAuth P s = (Inr (), adopted)"
    obtain es where "trace (snd (initializeAuth P s)) = trace s2 @ es" using ext[OF st] by blast
    then show False unfolding e by (simp add: adopted_def s2_def console_log_def k1)
  qed
  have stale: "\<not> expiry_date c - clock s > TOKEN_BUFFER_TIME P"
    if "TOKEN_BUFFER_TIME P = 300000 \<and> expiry_date c - 200000 \<le> clock s"
    using that by simp
  show ?thesis using fresh path tok differ stale by blast
qed

theorem initializeAuth_adopts_iff_fresh_witness:
  "kv (pool3 cached_store offline) ''token_1'' = Some (''2000000 0 tok'', Some 1699) \<and>
   fst (initializeAuth sample_platform (pool3 cached_store offline)) = Inr () \<and>
   accessToken (snd (initializeAuth sample_platform (pool3 cached_store offline))) = Some ''tok'' \<and>
   trace (snd (initializeAuth sample_platform (pool3 cached_store offline)))
     = [KvGet ''token_1'', Log FoundCachedToken, Log (UsingCachedToken 1999)] \<and>
   accessToken (snd (initializeAuth sample_platform
                       ((pool3 cached_store offline)\<lparr>clock := 1800000\<rparr>))) = Some ''at'' \<and>
   accessToken (snd (initializeAuth sample_platform
                       ((pool3 cached_store refresh_ok)\<lparr>clock := 4900000\<rparr>))) = Some ''new''"
proof -
  let ?P = sample_platform
  let ?A = "pool3 cached_store offline"
  let ?B = "(pool3 cached_store offline)\<lparr>clock := 1800000\<rparr>"
  let ?C = "(pool3 cached_store refresh_ok)\<lparr>clock := 4900000\<rparr>"
  let ?oc = "sample_credentials\<lparr>cred_id_token := ''a''\<rparr>"
  have pool: "credentials ?A \<noteq> []" "credentials ?B \<noteq> []" "credentials ?C \<noteq> []"
    by (simp_all add: pool3_def new_AuthManager_def)
  have cred: "current_credentials ?P ?A = Some ?oc" "current_credentials ?P ?B = Some ?oc"
    "current_credentials ?P ?C = Some ?oc"
    by (simp_all add: current_credentials_def pool3_def new_AuthManager_def sample_platform_def)
  have up: "\<not> kv_fault ?A (kv_calls ?A)" "\<not> kv_fault ?B (kv_calls ?B)"
    "\<not> kv_fault ?C (kv_calls ?C)"
    by (simp_all add: pool3_def new_AuthManager_def)
  have k: "kv ?A ''token_1'' = Some (''2000000 0 tok'', Some 1699)"
    "kv ?B ''token_1'' = Some (''2000000 0 tok'', Some 1699)"
    "kv ?C ''token_1'' = Some (''2000000 0 tok'', Some 1699)"
    by (simp_all add: pool3_def new_AuthManager_def cached_store_def)
  have entry:
    "kv ?A (token_key ?P (?A\<lparr>credsHash := hashString ?P (cred_id_token ?oc)\<rparr>))
       = Some (''2000000 0 tok'', Some 1699)"
    "kv ?B (token_key ?P (?B\<lparr>credsHash := hashString ?P (cred_id_token ?oc)\<rparr>))
       = Some (''2000000 0 tok'', Some 1699)"
    "kv ?C (token_key ?P (?C\<lparr>credsHash := hashString ?P (cred_id_token ?oc)\<rparr>))
       = Some (''2000000 0 tok'', Some 1699)"
    unfolding sample_token_key by (rule k)+
  have st: "clock ?A = 1000" "trace ?A = []" "kv_calls ?A = 0" "clock ?B = 1800000"
    "clock ?C = 4900000" "net ?C (fetches ?C) = Response 200 ''new''"
    by (simp_all add: pool3_def new_AuthManager_def refresh_ok_def)
  have oc: "cred_expiry_date ?oc = 5000000" "cred_access_token ?oc = ''at''"
    by (simp_all add: sample_credentials_def)
  note A = initializeAuth_adopts_iff_fresh[OF pool(1) cred(1) up(1) entry(1) sample_cached_entry]
  note B = initializeAuth_adopts_iff_fresh[OF pool(2) cred(2) up(2) entry(2) sample_cached_entry]
  note C = initializeAuth_adopts_iff_fresh[OF pool(3) cred(3) up(3) entry(3) sample_cached_entry]
  have tk: "token_key ?P (?A\<lparr>credsHash := hashString ?P ''a''\<rparr>) = ''token_1''"
    using sample_token_key[of ?A] by simp
  have a: "initializeAuth ?P ?A =
      (Inr (), console_log (UsingCachedToken ((2000000 - clock ?A) div 1000))
         (?A\<lparr>credsHash := hashString ?P (cred_id_token ?oc), kv_calls := kv_calls ?A + 1,
             trace := trace ?A @ [KvGet ''token_1'', Log FoundCachedToken],
             accessToken := Some ''tok''\<rparr>))"
    using A[THEN conjunct1] by (simp add: sample_buffer st tk)
  have nb: "\<not> expiry_date \<lparr>access_token = ''tok'', expiry_date = 2000000, cached_at = 0\<rparr>
                 - clock ?B > TOKEN_BUFFER_TIME ?P"
    by (simp add: sample_buffer st)
  have nc: "\<not> expiry_date \<lparr>access_token = ''tok'', expiry_date = 2000000, cached_at = 0\<rparr>
                 - clock ?C > TOKEN_BUFFER_TIME ?P"
    by (simp add: sample_buffer st)
  have b: "accessToken (snd (initializeAuth ?P ?B)) = Some ''at''"
    using B[THEN conjunct2, THEN conjunct1, THEN mp, OF nb, THEN conjunct1]
    by (simp add: sample_buffer oc)
  have c: "accessToken (snd (initializeAuth ?P ?C)) = Some ''new''"
    using C[THEN conjunct2, THEN conjunct1, THEN mp, OF nc, THEN conjunct1]
    by (simp add: sample_buffer oc response_ok_def sample_parse_refresh
          pool3_def new_AuthManager_def refresh_ok_def)
  show ?thesis unfolding a using b c k(1) by (simp add: console_log_def st)
qed

text \<open>
  C8. \<open>callEndpoint\<close> sends at most two requests, and at most one when it is itself the
  retry. When the first authentication succeeds and the first response has status
  \<open>status\<close> and body \<open>responseText\<close>: a 2xx response ends the call with what
  \<open>response.json()\<close> gives (the value the body denotes; a \<open>SyntaxError\<close> if the body is not
  JSON); any other status, except a 401 on a call that is not the retry, raises
  \<open>ApiCallFailed status responseText\<close>; a 401 on
  a call that is not the retry clears the access token, deletes the cached token in the
  store (if the store answers), authenticates again and calls \<open>callEndpoint\<close> once more as the retry. When the
  authentications succeed, the result is decided by the second response alone (what
  \<open>response.json()\<close> gives if 2xx, else \<open>ApiCallFailed\<close> with its status and body, a second
  401 included), and exactly two requests were sent.
\<close>

theorem callEndpoint_retries_once:
  assumes a1: "initializeAuth P s = (Inr (), sa)"
    and r1: "net sa (fetches sa) = Response status responseText"
    and sb: "sb = snd (fetch (ApiRequest method (accessToken sa) body) sa)"
    and sc: "sc = clearTokenCache P ((console_log Got401 sb)\<lparr>accessToken := None\<rparr>)"
  shows "api_calls (trace (snd (callEndpoint P method body isRetry s)))
           \<le> api_calls (trace s) + (if isRetry then 1 else 2) \<and>
         (response_ok status \<longrightarrow>
            callEndpoint P method body isRetry s = (response_json P responseText, sb)) \<and>
         (\<not> response_ok status \<and> (status \<noteq> 401 \<or> isRetry) \<longrightarrow>
            callEndpoint P method body isRetry s = (Inl (ApiCallFailed status responseText), sb)) \<and>
         (\<not> response_ok status \<and> status = 401 \<and> \<not> isRetry \<longrightarrow>
            accessToken sc = None \<and>
            KvDelete (token_key P sb) \<in> set (drop (length (trace sb)) (trace sc)) \<and>
            (if kv_fault sb (kv_calls sb) then kv sc = kv sb
             else kv sc = (kv sb)(token_key P sb := None)) \<and>
            callEndpoint P method body isRetry s =
              (case initializeAuth P sc of
                 (Inl e, sd) \<Rightarrow> (Inl e, sd)
               | (Inr u, sd) \<Rightarrow> callEndpoint P method body True sd)) \<and>
         (\<not> response_ok status \<and> status = 401 \<and> \<not> isRetry \<and>
          initializeAuth P sc = (Inr (), sd) \<and> initializeAuth P sd = (Inr (), se) \<and>
          net se (fetches se) = Response status' responseText' \<longrightarrow>
            callEndpoint P method body isRetry s =
              (if response_ok status' then response_json P responseText'
               else Inl (ApiCallFailed status' responseText'),
               snd (fetch (ApiRequest method (accessToken se) body) se)) \<and>
            api_calls (trace (snd (callEndpoint P method body isRetry s)))
              = api_calls (trace s) + 2)"
proof -
  have f1: "fetch (ApiRequest method (accessToken sa) body) sa = (Response status responseText, sb)"
    using r1 sb by (simp add: fetch_def)
  have unf: "callEndpoint P method body isRetry s =
       (if \<not> response_ok status then
          (if status = 401 \<and> \<not> isRetry then
             (case initializeAuth P sc of
                (Inl e, sd) \<Rightarrow> (Inl e, sd)
              | (Inr u, sd) \<Rightarrow> callEndpoint P method body True sd)
           else (Inl (ApiCallFailed status responseText), sb))
        else (response_json P responseText, sb))"
    by (subst callEndpoint.simps) (simp add: a1 f1 sc)
  have c1: "api_calls (trace (snd (callEndpoint P method body isRetry s)))
           \<le> api_calls (trace s) + (if isRetry then 1 else 2)"
    by (rule callEndpoint_calls)
  have c2: "response_ok status \<longrightarrow> callEndpoint P method body isRetry s = (response_json P responseText, sb)"
    by (simp add: unf)
  have c3: "\<not> response_ok status \<and> (status \<noteq> 401 \<or> isRetry) \<longrightarrow>
            callEndpoint P method body isRetry s = (Inl (ApiCallFailed status responseText), sb)"
    by (auto simp: unf)
  have c4: "\<not> response_ok status \<and> status = 401 \<and> \<not> isRetry \<longrightarrow>
            accessToken sc = None \<and>
            KvDelete (token_key P sb) \<in> set (drop (length (trace sb)) (trace sc)) \<and>
            (if kv_fault sb (kv_calls sb) then kv sc = kv sb
             else kv sc = (kv sb)(token_key P sb := None)) \<and>
            callEndpoint P method body isRetry s =
              (case initializeAuth P sc of
                 (Inl e, sd) \<Rightarrow> (Inl e, sd)
               | (Inr u, sd) \<Rightarrow> callEndpoint P method body True sd)"
  proof -
    have t3: "accessToken sc = None"
      by (simp add: sc clearTokenCache_def kv_delete_def console_log_def Let_def)
    have d3: "KvDelete (token_key P sb) \<in> set (drop (length (trace sb)) (trace sc))"
      by (simp add: sc clearTokenCache_def kv_delete_def console_log_def token_key_def Let_def)
    have k3: "if kv_fault sb (kv_calls sb) then kv sc = kv sb
              else kv sc = (kv sb)(token_key P sb := None)"
      by (simp add: sc clearTokenCache_def kv_delete_def console_log_def token_key_def Let_def)
    show ?thesis using t3 d3 k3 unf by auto
  qed
  have c5: "\<not> response_ok status \<and> status = 401 \<and> \<not> isRetry \<and>
          initializeAuth P sc = (Inr (), sd) \<and> initializeAuth P sd = (Inr (), se) \<and>
          net se (fetches se) = Response status' responseText' \<longrightarrow>
            callEndpoint P method body isRetry s =
              (if response_ok status' then response_json P responseText'
               else Inl (ApiCallFailed status' responseText'),
               snd (fetch (ApiRequest method (accessToken se) body) se)) \<and>
            api_calls (trace (snd (callEndpoint P method body isRetry s)))
              = api_calls (trace s) + 2"
  proof (intro impI, elim conjE)
    assume h: "\<not> response_ok status" "status = 401" "\<not> isRetry"
      "initializeAuth P sc = (Inr (), sd)" "initializeAuth P sd = (Inr (), se)"
      "net se (fetches se) = Response status' responseText'"
    let ?s6 = "snd (fetch (ApiRequest method (accessToken se) body) se)"
    have re: "callEndpoint P method body True sd =
        (if response_ok status' then response_json P responseText'
         else Inl (ApiCallFailed status' responseText'), ?s6)"
      by (subst callEndpoint.simps) (simp add: h fetch_def)
    have eq: "callEndpoint P method body isRetry s =
        (if response_ok status' then response_json P responseText'
         else Inl (ApiCallFailed status' responseText'), ?s6)"
    proof -
      have "callEndpoint P method body isRetry s = callEndpoint P method body True sd"
        unfolding unf using h(1-4) by simp
      then show ?thesis by (simp only: re)
    qed
    have n1: "api_calls (trace sa) = api_calls (trace s)"
      using initializeAuth_api_calls[of P s] a1 by simp
    have n2: "api_calls (trace sb) = api_calls (trace s) + 1"
      using n1 sb by (simp add: fetch_def)
    have n3: "api_calls (trace sc) = api_calls (trace s) + 1"
      using n2 sc by (simp add: console_log_def)
    have n4: "api_calls (trace sd) = api_calls (trace s) + 1"
      using initializeAuth_api_calls[of P sc] h(4) n3 by simp
    have n5: "api_calls (trace se) = api_calls (trace s) + 1"
      using initializeAuth_api_calls[of P sd] h(5) n4 by simp
    have "api_calls (trace ?s6) = api_calls (trace s) + 2"
      using n5 by (simp add: fetch_def)
    then show "callEndpoint P method body isRetry s =
              (if response_ok status' then response_json P responseText'
               else Inl (ApiCallFailed status' responseText'),
               snd (fetch (ApiRequest method (accessToken se) body) se)) \<and>
            api_calls (trace (snd (callEndpoint P method body isRetry s)))
              = api_calls (trace s) + 2"
      using eq by simp
  qed
  from c1 c2 c3 c4 c5 show ?thesis by blast
qed

theorem callEndpoint_retries_once_witness:
  "fst (initializeAuth sample_platform (pool3 Map.empty unauthorized_then_ok)) = Inr () \<and>
   fst (callEndpoint sample_platform ''generateContent'' ''{}'' False
          (pool3 Map.empty unauthorized_then_ok)) = Inr ''{}'' \<and>
   api_calls (trace (snd (callEndpoint sample_platform ''generateContent'' ''{}'' False
          (pool3 Map.empty unauthorized_then_ok)))) = 2"
proof -
  let ?P = sample_platform
  let ?S = "pool3 Map.empty unauthorized_then_ok"
  let ?sa = "snd (initializeAuth ?P ?S)"
  let ?sb = "snd (fetch (ApiRequest ''generateContent'' (accessToken ?sa) ''{}'') ?sa)"
  let ?sc = "clearTokenCache ?P ((console_log Got401 ?sb)\<lparr>accessToken := None\<rparr>)"
  let ?sd = "snd (initializeAuth ?P ?sc)"
  let ?se = "snd (initializeAuth ?P ?sd)"
  have a1: "fst (initializeAuth ?P ?S) = Inr ()" by code_simp
  have a2: "fst (initializeAuth ?P ?sc) = Inr ()" by code_simp
  have a3: "fst (initializeAuth ?P ?sd) = Inr ()" by code_simp
  have r1: "net ?sa (fetches ?sa) = Response 401 ''no''" by code_simp
  have r2: "net ?se (fetches ?se) = Response 200 ''{}''" by code_simp
  have h1: "initializeAuth ?P ?S = (Inr (), ?sa)" using a1 by (simp add: prod_eq_iff)
  have h2: "initializeAuth ?P ?sc = (Inr (), ?sd)" using a2 by (simp add: prod_eq_iff)
  have h3: "initializeAuth ?P ?sd = (Inr (), ?se)" using a3 by (simp add: prod_eq_iff)
  have t0: "api_calls (trace ?S) = 0" by (simp add: pool3_def new_AuthManager_def)
  have ok: "\<not> response_ok 401" "response_ok 200" by (simp_all add: response_ok_def)
  have prem: "\<not> response_ok 401 \<and> (401::int) = 401 \<and> \<not> False \<and>
      initializeAuth ?P ?sc = (Inr (), ?sd) \<and> initializeAuth ?P ?sd = (Inr (), ?se) \<and>
      net ?se (fetches ?se) = Response 200 ''{}''"
    using ok(1) h2 h3 r2 by blast
  note T = callEndpoint_retries_once[OF h1 r1 refl refl,
         where isRetry = False and sd = ?sd and se = ?se and status' = 200 and responseText' = "''{}''"]
  note R = T[THEN conjunct2, THEN conjunct2, THEN conjunct2, THEN conjunct2, THEN mp, OF prem]
  have E: "callEndpoint ?P ''generateContent'' ''{}'' False ?S =
          (if response_ok 200 then response_json ?P ''{}'' else Inl (ApiCallFailed 200 ''{}''),
           snd (fetch (ApiRequest ''generateContent'' (accessToken ?se) ''{}'') ?se))"
    by (rule R[THEN conjunct1])
  have N: "api_calls (trace (snd (callEndpoint ?P ''generateContent'' ''{}'' False ?S)))
             = api_calls (trace ?S) + 2"
    by (rule R[THEN conjunct2])
  have "fst (callEndpoint ?P ''generateContent'' ''{}'' False ?S) = Inr ''{}''"
    unfolding E using ok(2) by (simp add: response_json_def sample_platform_def)
  moreover have "api_calls (trace (snd (callEndpoint ?P ''generateContent'' ''{}'' False ?S))) = 2"
    unfolding N t0 by simp
  ultimately show ?thesis using a1 by blast
qed

text \<open>
  C9. The claim: for every stored cursor string the index read and the cursor written are
  in the range of the pool. Only the upper end is clamped (\<open>Math.min\<close>): with three
  credentials and the stored cursor \<open>-5\<close> the rotation decides from index -5, selects -4
  and persists \<open>-4\<close>; with the stored cursor \<open>abc\<close> it selects and persists \<open>NaN\<close>.
\<close>

theorem rotate_negative_cursor:
  "fst (rotateCredentials sample_platform Normal None
          (new_AuthManager three_slots cursor_minus_5 offline)) = Inr () \<and>
   credsIndex (snd (rotateCredentials sample_platform Normal None
          (new_AuthManager three_slots cursor_minus_5 offline))) = Num (- 4) \<and>
   kv (snd (rotateCredentials sample_platform Normal None
          (new_AuthManager three_slots cursor_minus_5 offline))) ''creds_index''
     = Some (''-4'', None) \<and>
   trace (snd (rotateCredentials sample_platform Normal None
          (new_AuthManager three_slots cursor_minus_5 offline))) =
     [KvGet ''creds_index'', Log (CurrentIndex (Num (- 5))),
      KvGet ''exhausted_until_-4'', KvPut ''creds_index'' ''-4'' None,
      Log (Rotated (Num (- 4)) Normal)] \<and>
   credsIndex (snd (rotateCredentials sample_platform Normal None
          (new_AuthManager three_slots cursor_abc offline))) = NaN \<and>
   kv (snd (rotateCredentials sample_platform Normal None
          (new_AuthManager three_slots cursor_abc offline))) ''creds_index''
     = Some (''NaN'', None)"
  by code_simp

text \<open>
  C10. The claim: \<open>rotateCredentials("exhausted")\<close> without a reset time changes only the
  persisted cursor (and resets the token and the hash). The store of this manager holds
  the record \<open>exhausted_until_1 = 500\<close>, no longer in force at time 1000; the rotation
  deletes it, as a normal rotation does.
\<close>

theorem rotate_without_reset_deletes_record:
  "kv (pool3 expired_1 offline) ''exhausted_until_1'' = Some (''500'', None) \<and>
   fst (rotateCredentials sample_platform Exhausted None (pool3 expired_1 offline)) = Inr () \<and>
   kv (snd (rotateCredentials sample_platform Exhausted None (pool3 expired_1 offline)))
     ''exhausted_until_1'' = None \<and>
   ''exhausted_until_1'' \<noteq> KV_CREDS_INDEX sample_platform"
  by code_simp

text \<open>
  C10, as amended. \<open>rotateCredentials("exhausted")\<close> without a reset time does what a
  normal rotation does, with the same result and the same final state up to the label of
  the last console line. It writes no exhaustion record: its only write to the store is
  the cursor. The store is otherwise unchanged, except that the scan deletes an exhaustion
  record it finds no longer in force. On success the access token and the hash are reset
  and the stored cursor is the index selected.
\<close>

theorem rotate_exhausted_without_reset:
  "rotateCredentials P Exhausted None s =
     (case rotateCredentials P Normal None s of
        (Inl e, s') \<Rightarrow> (Inl e, s')
      | (Inr u, s') \<Rightarrow>
          (Inr u, s'\<lparr>trace := butlast (trace s') @ [Log (Rotated (credsIndex s') Exhausted)]\<rparr>)) \<and>
   (kv_writes (trace (snd (rotateCredentials P Exhausted None s))) = kv_writes (trace s) \<or>
    kv_writes (trace (snd (rotateCredentials P Exhausted None s)))
      = kv_writes (trace s) @ [KV_CREDS_INDEX P]) \<and>
   (\<forall>k. k \<noteq> KV_CREDS_INDEX P \<longrightarrow>
        kv (snd (rotateCredentials P Exhausted None s)) k = kv s k \<or>
        (kv (snd (rotateCredentials P Exhausted None s)) k = None \<and>
         (\<exists>i. k = exhausted_key i \<and> \<not> is_exhausted s i))) \<and>
   (fst (rotateCredentials P Exhausted None s) = Inr () \<longrightarrow>
        accessToken (snd (rotateCredentials P Exhausted None s)) = None \<and>
        credsHash (snd (rotateCredentials P Exhausted None s)) = 0 \<and>
        kv (snd (rotateCredentials P Exhausted None s)) (KV_CREDS_INDEX P)
          = Some (toString (credsIndex (snd (rotateCredentials P Exhausted None s))), None))"
proof -
  define s1 where "s1 = (if length (credentials s) = 0 then s\<lparr>credentials := load_slots s\<rparr> else s)"
  define sv where "sv = (case fst (kv_get (KV_CREDS_INDEX P) s1) of Inl e \<Rightarrow> Some ''0'' | Inr v \<Rightarrow> v)"
  define s2 where "s2 = snd (kv_get (KV_CREDS_INDEX P) s1)"
  define idx where "idx = js_min (parseInt (case sv of None \<Rightarrow> ''0'' | Some v \<Rightarrow> v))
                        (Num (int (length (credentials s2)) - 1))"
  define s3 where "s3 = console_log (CurrentIndex idx) (s2\<lparr>credsIndex := idx\<rparr>)"
  define r where "r = fst (getNextViableCredentialIndex (credsIndex s3) s3)"
  define s4 where "s4 = snd (getNextViableCredentialIndex (credsIndex s3) s3)"
  define fin where "fin = (\<lambda>reason nextIndex.
      if kv_fault s4 (kv_calls s4)
      then (Inl KvUnavailable :: error + unit,
            s4\<lparr>credsIndex := nextIndex, kv_calls := kv_calls s4 + 1,
               trace := trace s4 @ [KvPut (KV_CREDS_INDEX P) (toString nextIndex) None]\<rparr>)
      else (Inr (),
            s4\<lparr>accessToken := None, credsIndex := nextIndex, credsHash := 0,
               kv := (kv s4)(KV_CREDS_INDEX P \<mapsto> (toString nextIndex, None)),
               kv_calls := kv_calls s4 + 1,
               trace := trace s4 @ [KvPut (KV_CREDS_INDEX P) (toString nextIndex) None,
                                    Log (Rotated nextIndex reason)]\<rparr>))"
  have e1: "(case kv_get (KV_CREDS_INDEX P) s1 of
               (Inl e, s') \<Rightarrow> (Some ''0'', s')
             | (Inr v, s') \<Rightarrow> (v, s')) = (sv, s2)"
    by (cases "kv_get (KV_CREDS_INDEX P) s1"; cases "fst (kv_get (KV_CREDS_INDEX P) s1)")
       (auto simp: sv_def s2_def)
  have e2: "getNextViableCredentialIndex (credsIndex s3) s3 = (r, s4)"
    by (simp add: r_def s4_def)
  have e3: "(case kv_put (KV_CREDS_INDEX P) (toString nextIndex) None (s4\<lparr>credsIndex := nextIndex\<rparr>) of
               (Inl e, s5) \<Rightarrow> (Inl e, s5)
             | (Inr _, s5) \<Rightarrow>
                 (Inr (), (console_log (Rotated nextIndex reason) s5)
                            \<lparr>accessToken := None, credsHash := 0\<rparr>)) = fin reason nextIndex"
    for reason nextIndex
    by (auto simp: fin_def kv_put_def console_log_def Let_def intro!: state.equality)
  have R: "rotateCredentials P reason None s =
     (if length (credentials s1) = 0 then (Inl NoAccountsFound, s1)
      else case r of Inl e \<Rightarrow> (Inl e, s4) | Inr nextIndex \<Rightarrow> fin reason nextIndex)" for reason
    unfolding rotateCredentials_None
    by (simp only: Let_def s1_def[symmetric] e1 prod.case idx_def[symmetric] s3_def[symmetric] e2 e3)
  have k1: "kv s1 = kv s" "clock s1 = clock s" "kv_writes (trace s1) = kv_writes (trace s)"
    by (simp_all add: s1_def)
  have k3: "kv s3 = kv s" "clock s3 = clock s" "kv_writes (trace s3) = kv_writes (trace s)"
    using k1 by (simp_all add: s3_def s2_def kv_get_def console_log_def Let_def)
  have k4: "cleaned s s4" "kv_writes (trace s4) = kv_writes (trace s)"
    using getNextViable_cleaned[OF e2] cleaned_from[of s3 s4 s] k3 by simp_all
  have fr: "kv s4 k = kv s k \<or> (kv s4 k = None \<and> (\<exists>i. k = exhausted_key i \<and> \<not> is_exhausted s i))" for k
    using k4(1) by (simp add: cleaned_def)
  have c1: "rotateCredentials P Exhausted None s =
     (case rotateCredentials P Normal None s of
        (Inl e, s') \<Rightarrow> (Inl e, s')
      | (Inr u, s') \<Rightarrow>
          (Inr u, s'\<lparr>trace := butlast (trace s') @ [Log (Rotated (credsIndex s') Exhausted)]\<rparr>))"
    unfolding R by (cases r) (auto simp: fin_def butlast_append intro!: state.equality)
  have c2: "kv_writes (trace (snd (rotateCredentials P Exhausted None s))) = kv_writes (trace s) \<or>
    kv_writes (trace (snd (rotateCredentials P Exhausted None s)))
      = kv_writes (trace s) @ [KV_CREDS_INDEX P]"
    unfolding R using k1 k4 by (cases r) (auto simp: fin_def)
  have c3: "k \<noteq> KV_CREDS_INDEX P \<longrightarrow>
        kv (snd (rotateCredentials P Exhausted None s)) k = kv s k \<or>
        (kv (snd (rotateCredentials P Exhausted None s)) k = None \<and>
         (\<exists>i. k = exhausted_key i \<and> \<not> is_exhausted s i))" for k
    unfolding R using k1 fr[of k] by (cases r) (auto simp: fin_def)
  have c4: "fst (rotateCredentials P Exhausted None s) = Inr () \<longrightarrow>
        accessToken (snd (rotateCredentials P Exhausted None s)) = None \<and>
        credsHash (snd (rotateCredentials P Exhausted None s)) = 0 \<and>
        kv (snd (rotateCredentials P Exhausted None s)) (KV_CREDS_INDEX P)
          = Some (toString (credsIndex (snd (rotateCredentials P Exhausted None s))), None)"
    unfolding R by (cases r) (auto simp: fin_def)
  from c1 c2 c3 c4 show ?thesis by blast
qed

theorem rotate_exhausted_without_reset_witness:
  "fst (rotateCredentials sample_platform Exhausted None (pool3 expired_1 offline)) = Inr () \<and>
   accessToken (snd (rotateCredentials sample_platform Exhausted None (pool3 expired_1 offline)))
     = None \<and>
   credsHash (snd (rotateCredentials sample_platform Exhausted None (pool3 expired_1 offline))) = 0 \<and>
   kv_writes (trace (snd (rotateCredentials sample_platform Exhausted None
                            (pool3 expired_1 offline)))) = [''creds_index''] \<and>
   ''exhausted_until_0'' \<noteq> KV_CREDS_INDEX sample_platform \<and>
   kv (snd (rotateCredentials sample_platform Exhausted None (pool3 expired_1 offline)))
     ''exhausted_until_0'' = kv (pool3 expired_1 offline) ''exhausted_until_0''"
proof -
  let ?S = "pool3 expired_1 offline"
  let ?S' = "snd (rotateCredentials sample_platform Exhausted None ?S)"
  have ok: "fst (rotateCredentials sample_platform Exhausted None ?S) = Inr ()" by code_simp
  have ne: "''exhausted_until_0'' \<noteq> KV_CREDS_INDEX sample_platform"
    by (simp add: sample_platform_def)
  have w: "kv_writes (trace ?S') \<noteq> kv_writes (trace ?S)" by code_simp
  have t: "kv_writes (trace ?S) = []" by (simp add: pool3_def new_AuthManager_def)
  have k: "kv ?S' ''exhausted_until_0'' \<noteq> None \<or> kv ?S ''exhausted_until_0'' = None" by code_simp
  note T = rotate_exhausted_without_reset[of sample_platform ?S]
  have c2: "kv_writes (trace ?S') = kv_writes (trace ?S) \<or>
            kv_writes (trace ?S') = kv_writes (trace ?S) @ [KV_CREDS_INDEX sample_platform]"
    by (rule T[THEN conjunct2, THEN conjunct1])
  have c3: "kv ?S' ''exhausted_until_0'' = kv ?S ''exhausted_until_0'' \<or>
            (kv ?S' ''exhausted_until_0'' = None \<and>
             (\<exists>i. ''exhausted_until_0'' = exhausted_key i \<and> \<not> is_exhausted ?S i))"
    by (rule T[THEN conjunct2, THEN conjunct2, THEN conjunct1, THEN spec, THEN mp, OF ne])
  have c4: "accessToken ?S' = None \<and> credsHash ?S' = 0 \<and>
            kv ?S' (KV_CREDS_INDEX sample_platform) = Some (toString (credsIndex ?S'), None)"
    by (rule T[THEN conjunct2, THEN conjunct2, THEN conjunct2, THEN mp, OF ok])
  have "kv_writes (trace ?S') = [''creds_index'']"
    using c2 w by (simp add: t sample_cursor_key)
  moreover have "kv ?S' ''exhausted_until_0'' = kv ?S ''exhausted_until_0''"
    using c3 k by auto
  ultimately show ?thesis using ok ne c4 by blast
qed

end
